theory Spec2Isabelle
  imports Complex_Main "HOL-Library.Sublist"
begin

section \<open>Values of the parsed document\<close>

text \<open>
  The preview (\<^verbatim>\<open>src/gltfPreview.ts\<close>) works on the tree that \<^verbatim>\<open>parseJsonMap\<close> returns:
  plain JavaScript values built from JSON text. An object is the list of its own enumerable
  properties in \<^verbatim>\<open>for ... in\<close> order (keys of a JavaScript object are distinct; where a list
  repeats a key, a property read takes the first entry). A JavaScript expression can also
  evaluate to \<^verbatim>\<open>undefined\<close>, which is \<open>None\<close> of \<open>jsval\<close>.
\<close>

datatype json =
    JNull
  | JBool bool
  | JNum rat
  | JStr string
  | JArr "json list"
  | JObj "(string \<times> json) list"

type_synonym jsval = "json option"

datatype error =
    TypeError
  | UnknownCommand string
  | ENOENT string

text \<open>Truthiness, as \<^verbatim>\<open>&&\<close> and \<^verbatim>\<open>if\<close> test it.\<close>

fun truthy :: "jsval \<Rightarrow> bool" where
  "truthy None = False"
| "truthy (Some JNull) = False"
| "truthy (Some (JBool b)) = b"
| "truthy (Some (JNum n)) = (n \<noteq> 0)"
| "truthy (Some (JStr s)) = (s \<noteq> [])"
| "truthy (Some (JArr xs)) = True"
| "truthy (Some (JObj kvs)) = True"

text \<open>
  The property read \<^verbatim>\<open>v.name\<close> for a name that is neither an array index nor defined by a
  prototype (\<^verbatim>\<open>asset\<close> and \<^verbatim>\<open>version\<close> below). Reading a property of \<^verbatim>\<open>undefined\<close> or
  \<^verbatim>\<open>null\<close> throws a TypeError; every other primitive and every array yields \<^verbatim>\<open>undefined\<close>.
\<close>

fun get_named :: "jsval \<Rightarrow> string \<Rightarrow> error + jsval" where
  "get_named None k = Inl TypeError"
| "get_named (Some JNull) k = Inl TypeError"
| "get_named (Some (JObj kvs)) k = Inr (map_of kvs k)"
| "get_named (Some v) k = Inr None"

text \<open>
  The indexed read \<^verbatim>\<open>v[0]\<close>: the first character of a string (as a one-character string), the
  first element of an array, the property \<^verbatim>\<open>"0"\<close> of an object.
\<close>

fun get_index0 :: "jsval \<Rightarrow> error + jsval" where
  "get_index0 None = Inl TypeError"
| "get_index0 (Some JNull) = Inl TypeError"
| "get_index0 (Some (JStr s)) = Inr (case s of [] \<Rightarrow> None | c # cs \<Rightarrow> Some (JStr [c]))"
| "get_index0 (Some (JArr xs)) = Inr (case xs of [] \<Rightarrow> None | x # ys \<Rightarrow> Some x)"
| "get_index0 (Some (JObj kvs)) = Inr (map_of kvs ''0'')"
| "get_index0 (Some v) = Inr None"

section \<open>The major version of a document\<close>

text \<open>
  \<^verbatim>\<open>updatePanel\<close>, lines 141 to 145:
  \<^verbatim>\<open>let gltfMajorVersion = 1;
  if (gltf && gltf.asset && gltf.asset.version && gltf.asset.version[0] === '2') { gltfMajorVersion = 2; }\<close>
  Each \<^verbatim>\<open>&&\<close> stops at the first falsy operand; each property read may throw.
\<close>

definition gltfMajorVersion :: "jsval \<Rightarrow> error + nat" where
  "gltfMajorVersion gltf =
     (if \<not> truthy gltf then Inr 1
      else case get_named gltf ''asset'' of
        Inl e \<Rightarrow> Inl e
      | Inr asset \<Rightarrow>
          if \<not> truthy asset then Inr 1
          else case get_named asset ''version'' of
            Inl e \<Rightarrow> Inl e
          | Inr version \<Rightarrow>
              if \<not> truthy version then Inr 1
              else case get_index0 version of
                Inl e \<Rightarrow> Inl e
              | Inr c \<Rightarrow> if c = Some (JStr ''2'') then Inr 2 else Inr 1)"

text \<open>
  The specification's reading: the version metadata of a tree is the \<^verbatim>\<open>version\<close> member of its
  top-level \<^verbatim>\<open>asset\<close> object, and it begins with \<^verbatim>\<open>2\<close> when its element at position 0 is the
  character \<^verbatim>\<open>2\<close> (for a string, its first character).
\<close>

definition asset_version :: "jsval \<Rightarrow> json option" where
  "asset_version gltf =
     (case gltf of
        Some (JObj kvs) \<Rightarrow>
          (case map_of kvs ''asset'' of
             Some (JObj a) \<Rightarrow> map_of a ''version''
           | _ \<Rightarrow> None)
      | _ \<Rightarrow> None)"

fun begins_with_2 :: "json \<Rightarrow> bool" where
  "begins_with_2 (JStr s) = (case s of [] \<Rightarrow> False | c # cs \<Rightarrow> c = CHR ''2'')"
| "begins_with_2 (JArr xs) = (case xs of [] \<Rightarrow> False | x # ys \<Rightarrow> x = JStr ''2'')"
| "begins_with_2 (JObj kvs) = (map_of kvs ''0'' = Some (JStr ''2''))"
| "begins_with_2 v = False"

definition is_v2 :: "jsval \<Rightarrow> bool" where
  "is_v2 gltf = (case asset_version gltf of None \<Rightarrow> False | Some v \<Rightarrow> begins_with_2 v)"

definition scenario_tree :: json where
  "scenario_tree =
     JObj [(''asset'', JObj [(''version'', JStr ''2.0'')]),
           (''images'', JArr [JObj [(''uri'', JStr ''tex.png'')]])]"

section \<open>The parser's result, the editor, the host\<close>

text \<open>
  Modelled from the spec: \<^verbatim>\<open>parseJsonMap\<close> (imported from \<^verbatim>\<open>./utilities\<close>) is not among
  the sources. By section 4.2 its output is a structured tree, or a well-defined failure
  sentinel, plus a position map from pointers to offsets in the text. The panel stores the
  result as \<^verbatim>\<open>_jsonMap: { data, pointers }\<close>; the failure sentinel is \<^verbatim>\<open>data\<close> being
  \<^verbatim>\<open>undefined\<close>, the one case the guard \<^verbatim>\<open>gltf && ...\<close> of \<^verbatim>\<open>updatePanel\<close> provides for.
  Of a pointer only \<^verbatim>\<open>value.pos\<close> and \<^verbatim>\<open>valueEnd.pos\<close> are read.
\<close>

record pointer =
  value_pos :: nat
  valueEnd_pos :: nat

record json_map =
  data :: jsval
  pointers :: "string \<rightharpoonup> pointer"


text \<open>A \<^verbatim>\<open>vscode.TextEditor\<close>: the file name of its document and the text it holds.\<close>

record editor =
  fileName :: string
  getText :: string

text \<open>
  What the code calls and does not define: Node's \<^verbatim>\<open>fs\<close> and \<^verbatim>\<open>path\<close>, the \<^verbatim>\<open>vscode\<close>
  API, \<^verbatim>\<open>String.prototype.replace\<close>, the parser, and the members of \<^verbatim>\<open>ContextBase\<close>.
  \<open>fs_exists\<close> says for which paths \<^verbatim>\<open>fs.watch\<close> succeeds; for the others it throws.
\<close>

record host =
  fs_exists :: "string \<Rightarrow> bool"
  parseJsonMap :: "string \<Rightarrow> json_map"
  dirname :: "string \<Rightarrow> string"
  basename :: "string \<Rightarrow> string"
  join :: "string \<Rightarrow> string \<Rightarrow> string"
  positionAt :: "editor \<Rightarrow> nat \<Rightarrow> nat \<times> nat"
  getConfigResourceUrl :: "string \<Rightarrow> string \<Rightarrow> string list \<Rightarrow> string"
  getConfiguration :: "string \<Rightarrow> string \<Rightarrow> string"
  asWebviewUri :: "string \<Rightarrow> string"
  cspSource :: string
  replace_first :: "string \<Rightarrow> string \<Rightarrow> string \<Rightarrow> string"
  replace_cspSource :: "string \<Rightarrow> string \<Rightarrow> string"

text \<open>The fields of the \<^verbatim>\<open>GltfPreview\<close> object that its constructor fills.\<close>

record gltfPreview =
  extensionPath :: string
  extensionRootPath :: string
  mainHtml :: string
  babylonHtml :: string
  cesiumHtml :: string
  threeHtml :: string

section \<open>Panels, watchers and the state of the preview\<close>

text \<open>
  Panels and file watchers are objects; the model names them by numbers. The two closures
  given to \<^verbatim>\<open>fs.watch\<close> are \<open>DocumentChanged\<close> (lines 259 to 261) and \<open>ResourceChanged\<close>
  (lines 271 to 273), each holding the panel it captured.
\<close>

datatype callback =
    DocumentChanged nat
  | ResourceChanged nat

record fsWatcher =
  handle :: nat
  wpath :: string
  listener :: callback

record panelInfo =
  textEditor :: editor
  ready :: bool
  jsonMap :: "json_map option"
  defaultBabylonReflection :: string
  defaultThreeReflection :: string
  watchers :: "nat list"
  title :: string
  html :: string
  messageListeners :: nat
  active :: bool
  disposed :: bool

datatype effect =
    CreateWebviewPanel nat "string list"
  | Reveal nat
  | PostMessage nat string
  | SetContext string jsval
  | OpenGltfSelection "nat \<times> nat" "nat \<times> nat"
  | ShowErrorMessage string
  | ShowWarningMessage string
  | ActivePanelChanged "nat option"
  | PanelReadyChanged nat
  | WatcherClosed nat

text \<open>
  \<open>panels\<close> is \<^verbatim>\<open>this._panels\<close> in insertion order, \<open>panel_of\<close> the panel objects,
  \<open>fs_watchers\<close> the watches that \<^verbatim>\<open>fs\<close> holds open, \<open>trace\<close> the calls made to the host.
\<close>

record state =
  panels :: "(string \<times> nat) list"
  panel_of :: "nat \<Rightarrow> panelInfo"
  next_panel :: nat
  activePanel :: "nat option"
  fs_watchers :: "fsWatcher list"
  next_watcher :: nat
  trace :: "effect list"

definition emit :: "effect \<Rightarrow> state \<Rightarrow> state" where
  "emit e s = s\<lparr>trace := trace s @ [e]\<rparr>"

definition update_panel :: "nat \<Rightarrow> (panelInfo \<Rightarrow> panelInfo) \<Rightarrow> state \<Rightarrow> state" where
  "update_panel p f s = s\<lparr>panel_of := (panel_of s)(p := f (panel_of s p))\<rparr>"

section \<open>The watch set\<close>

text \<open>\<^verbatim>\<open>watcher.close()\<close>: the watch is no longer held open.\<close>

definition close :: "nat \<Rightarrow> state \<Rightarrow> state" where
  "close w s = emit (WatcherClosed w) (s\<lparr>fs_watchers := filter (\<lambda>x. handle x \<noteq> w) (fs_watchers s)\<rparr>)"

text \<open>\<^verbatim>\<open>unwatchFiles\<close>, lines 285 to 291.\<close>

definition unwatchFiles :: "nat \<Rightarrow> state \<Rightarrow> state" where
  "unwatchFiles p s =
     update_panel p (\<lambda>i. i\<lparr>watchers := []\<rparr>) (fold close (watchers (panel_of s p)) s)"

text \<open>\<^verbatim>\<open>panel._watchers.push(fs.watch(path, cb))\<close>: \<^verbatim>\<open>fs.watch\<close> throws where the path cannot
  be watched, and then nothing is pushed.\<close>

definition push_watch :: "host \<Rightarrow> nat \<Rightarrow> string \<Rightarrow> callback \<Rightarrow> state \<Rightarrow> error option \<times> state" where
  "push_watch h p file cb s =
     (if fs_exists h file
      then (None,
            update_panel p (\<lambda>i. i\<lparr>watchers := watchers i @ [next_watcher s]\<rparr>)
              (s\<lparr>fs_watchers := fs_watchers s @ [\<lparr>handle = next_watcher s, wpath = file, listener = cb\<rparr>],
                 next_watcher := Suc (next_watcher s)\<rparr>))
      else (Some (ENOENT file), s))"

fun typeof_object :: "json \<Rightarrow> bool" where
  "typeof_object JNull = True"
| "typeof_object (JArr xs) = True"
| "typeof_object (JObj kvs) = True"
| "typeof_object v = False"

fun is_external_uri :: "json \<Rightarrow> bool" where
  "is_external_uri (JStr v) = (take 5 v \<noteq> ''data:'')"
| "is_external_uri v = False"

fun string_of :: "json \<Rightarrow> string" where
  "string_of (JStr v) = v"
| "string_of v = []"

text \<open>
  The loop asks \<^verbatim>\<open>object.hasOwnProperty(key)\<close>. In an object with a member named
  \<^verbatim>\<open>hasOwnProperty\<close> that member takes the place of the inherited method, and a value read
  from JSON is not a function: the call throws a TypeError, in the first round of the loop.
\<close>

definition shadowed :: "(string \<times> 'a) list \<Rightarrow> bool" where
  "shadowed kvs = (''hasOwnProperty'' \<in> set (map fst kvs))"

text \<open>
  The closure \<^verbatim>\<open>watch\<close>, lines 265 to 280. \<^verbatim>\<open>for (const key in object)\<close> runs over the
  properties of an object and over the indices of an array (an index is never \<^verbatim>\<open>"uri"\<close>);
  over \<^verbatim>\<open>null\<close> it does not run at all. An exception leaves every loop.
\<close>

fun watch :: "host \<Rightarrow> nat \<Rightarrow> string \<Rightarrow> json \<Rightarrow> state \<Rightarrow> error option \<times> state"
  and watch_object :: "host \<Rightarrow> nat \<Rightarrow> string \<Rightarrow> (string \<times> json) list \<Rightarrow> state \<Rightarrow> error option \<times> state"
  and watch_array :: "host \<Rightarrow> nat \<Rightarrow> string \<Rightarrow> json list \<Rightarrow> state \<Rightarrow> error option \<times> state"
where
  "watch h p dir (JObj kvs) s =
     (if shadowed kvs then (Some TypeError, s) else watch_object h p dir kvs s)"
| "watch h p dir (JArr xs) s = watch_array h p dir xs s"
| "watch h p dir JNull s = (None, s)"
| "watch h p dir (JBool b) s = (None, s)"
| "watch h p dir (JNum n) s = (None, s)"
| "watch h p dir (JStr v) s = (None, s)"
| "watch_object h p dir [] s = (None, s)"
| "watch_object h p dir ((key, val) # rest) s =
     (if key = ''uri'' \<and> is_external_uri val
      then (case push_watch h p (join h dir (string_of val)) (ResourceChanged p) s of
              (Some e, s') \<Rightarrow> (Some e, s')
            | (None, s') \<Rightarrow> watch_object h p dir rest s')
      else if typeof_object val
      then (case watch h p dir val s of
              (Some e, s') \<Rightarrow> (Some e, s')
            | (None, s') \<Rightarrow> watch_object h p dir rest s')
      else watch_object h p dir rest s)"
| "watch_array h p dir [] s = (None, s)"
| "watch_array h p dir (val # rest) s =
     (if typeof_object val
      then (case watch h p dir val s of
              (Some e, s') \<Rightarrow> (Some e, s')
            | (None, s') \<Rightarrow> watch_array h p dir rest s')
      else watch_array h p dir rest s)"

text \<open>\<^verbatim>\<open>watchFiles\<close>, lines 254 to 283, up to the call of the closure on line 282, whose
  argument \<^verbatim>\<open>panel._jsonMap.data\<close> throws when \<^verbatim>\<open>_jsonMap\<close> is still undefined.\<close>

definition watchFiles :: "host \<Rightarrow> nat \<Rightarrow> state \<Rightarrow> error option \<times> state" where
  "watchFiles h p s =
     (let s1 = unwatchFiles p s;
          documentFilePath = fileName (textEditor (panel_of s1 p))
      in case push_watch h p documentFilePath (DocumentChanged p) s1 of
           (Some e, s2) \<Rightarrow> (Some e, s2)
         | (None, s2) \<Rightarrow>
             (let documentDirectoryPath = dirname h documentFilePath
              in case jsonMap (panel_of s2 p) of
                   None \<Rightarrow> (Some TypeError, s2)
                 | Some m \<Rightarrow>
                     (case data m of
                        None \<Rightarrow> (None, s2)
                      | Some object \<Rightarrow> watch h p documentDirectoryPath object s2)))"

section \<open>The rendered page\<close>

text \<open>A number as JavaScript writes it into a string.\<close>

fun show_nat :: "nat \<Rightarrow> string" where
  "show_nat n =
     (if n < 10 then [''0123456789'' ! n]
      else show_nat (n div 10) @ [''0123456789'' ! (n mod 10)])"

declare show_nat.simps [simp del]

definition dq :: string where
  "dq = [CHR 0x22]"

definition nl :: string where
  "nl = [CHR 0x0A]"

definition style_files :: "string list" where
  "style_files =
     [''pages/babylonView.css'', ''pages/cesiumView.css'', ''pages/threeView.css'',
      ''pages/previewModel.css'']"

definition script_files :: "string list" where
  "script_files =
     [''engines/Cesium/Cesium.js'',
      ''node_modules/babylonjs/babylon.js'',
      ''node_modules/babylonjs-loaders/babylonjs.loaders.min.js'',
      ''node_modules/babylonjs-inspector/babylon.inspector.bundle.js'',
      ''engines/Three/three.min.js'',
      ''engines/Three/DDSLoader.js'',
      ''engines/Three/DRACOLoader.js'',
      ''engines/Three/GLTFLoader.js'',
      ''engines/Three/OrbitControls.js'',
      ''pages/babylonView.js'',
      ''pages/babylonDebug.js'',
      ''pages/cesiumView.js'',
      ''pages/threeView.js'',
      ''pages/previewModel.js'']"

text \<open>\<^verbatim>\<open>formatHtml\<close>, lines 197 to 252.\<close>

definition formatHtml ::
  "host \<Rightarrow> gltfPreview \<Rightarrow> nat \<Rightarrow> string \<Rightarrow> string \<Rightarrow> string \<Rightarrow> string \<Rightarrow> string \<Rightarrow> string" where
  "formatHtml h c majorVersion gltfContent gltfRootPath gltfFileName
       defaultBabylonRefl defaultThreeRefl =
     (let defaultEngine =
            getConfiguration h ''glTF'' (''defaultV'' @ show_nat majorVersion @ ''Engine'');
          dracoLoaderPath = extensionRootPath c @ ''engines/Draco/draco_decoder.js'';
          dracoLoaderWasmPath = extensionRootPath c @ ''engines/Draco/draco_decoder.wasm'';
          strings =
            [(''extensionRootPath'', extensionRootPath c),
             (''defaultEngine'', defaultEngine),
             (''defaultBabylonReflection'', defaultBabylonRefl),
             (''defaultThreeReflection'', defaultThreeRefl),
             (''dracoLoaderPath'', dracoLoaderPath),
             (''dracoLoaderWasmPath'', dracoLoaderWasmPath),
             (''babylonHtml'', babylonHtml c),
             (''cesiumHtml'', cesiumHtml c),
             (''threeHtml'', threeHtml c),
             (''gltf'', gltfContent),
             (''gltfRootPath'', gltfRootPath),
             (''gltfFileName'', gltfFileName)];
          styles = map (\<lambda>f. asWebviewUri h (join h (extensionRootPath c) f)) style_files;
          scripts = map (\<lambda>f. asWebviewUri h (join h (extensionRootPath c) f)) script_files
      in replace_first h (mainHtml c) ''{assets}''
           (concat (map (\<lambda>u. ''<link rel='' @ dq @ ''stylesheet'' @ dq @ '' href='' @ dq @ u @ dq
                            @ ''></link>'' @ nl) styles)
            @ concat (map (\<lambda>(i, t). ''<script id='' @ dq @ i @ dq @ '' type='' @ dq @ ''text/plain''
                            @ dq @ ''>'' @ t @ ''</script>'' @ nl) strings)
            @ concat (map (\<lambda>u. ''<script type='' @ dq @ ''text/javascript'' @ dq @ '' charset='' @ dq
                            @ ''UTF-8'' @ dq @ '' crossorigin='' @ dq @ ''anonymous'' @ dq @ '' src=''
                            @ dq @ u @ dq @ ''></script>'' @ nl) scripts)))"

section \<open>Updating a panel\<close>

text \<open>
  \<^verbatim>\<open>updatePanel\<close>, lines 134 to 163. Line 158 adds one more listener to the webview's
  \<^verbatim>\<open>onDidReceiveMessage\<close> event; every such listener is the same closure, so the panel
  keeps their number.
\<close>

definition updatePanel ::
  "host \<Rightarrow> gltfPreview \<Rightarrow> nat \<Rightarrow> string \<Rightarrow> string \<Rightarrow> state \<Rightarrow> error option \<times> state" where
  "updatePanel h c p gltfFilePath gltfContent s =
     (let m = parseJsonMap h gltfContent;
          s1 = update_panel p (\<lambda>i. i\<lparr>jsonMap := Some m\<rparr>) s;
          gltfRootPath = dirname h gltfFilePath @ ''/'';
          gltfFileName = basename h gltfFilePath;
          gltf = data m
      in case gltfMajorVersion gltf of
           Inl e \<Rightarrow> (Some e, s1)
         | Inr version \<Rightarrow>
             (let s2 = update_panel p (\<lambda>i. i\<lparr>title := ''glTF Preview ['' @ gltfFileName @ '']''\<rparr>) s1;
                  s3 = update_panel p
                         (\<lambda>i. i\<lparr>html := replace_cspSource h
                                   (formatHtml h c version gltfContent gltfRootPath gltfFileName
                                      (defaultBabylonReflection i) (defaultThreeReflection i))
                                   (cspSource h)\<rparr>) s2;
                  s4 = update_panel p (\<lambda>i. i\<lparr>messageListeners := Suc (messageListeners i)\<rparr>) s3
              in watchFiles h p s4))"

section \<open>The active panel\<close>

text \<open>\<^verbatim>\<open>setActivePanel\<close>, lines 115 to 127, and \<^verbatim>\<open>updateActivePanel\<close>, lines 129 to 132.\<close>

definition setActivePanel :: "nat option \<Rightarrow> state \<Rightarrow> state" where
  "setActivePanel ap s =
     (if activePanel s \<noteq> ap
      then (let s1 = emit (ActivePanelChanged ap) (s\<lparr>activePanel := ap\<rparr>)
            in case ap of
                 Some p \<Rightarrow> emit (PostMessage p ''updateDebugMode'') s1
               | None \<Rightarrow> emit (SetContext ''gltfDebugActive'' (Some (JBool False))) s1)
      else s)"

definition updateActivePanel :: "state \<Rightarrow> state" where
  "updateActivePanel s =
     setActivePanel (map_option snd (find (\<lambda>(f, p). active (panel_of s p)) (panels s))) s"

section \<open>The panel registry\<close>

text \<open>The object that \<^verbatim>\<open>createWebviewPanel\<close> returns, with the fields lines 76 to 81 assign.\<close>

definition new_panel :: "editor \<Rightarrow> string \<Rightarrow> string \<Rightarrow> panelInfo" where
  "new_panel gltfEditor babylonRefl threeRefl =
     \<lparr>textEditor = gltfEditor, ready = False, jsonMap = None,
      defaultBabylonReflection = babylonRefl, defaultThreeReflection = threeRefl,
      watchers = [], title = ''glTF Preview'', html = [], messageListeners = 0,
      active = False, disposed = False\<rparr>"

text \<open>\<^verbatim>\<open>openPanel\<close>, lines 57 to 101. Nothing after a throwing \<^verbatim>\<open>updatePanel\<close> runs.\<close>

definition openPanel :: "host \<Rightarrow> gltfPreview \<Rightarrow> editor \<Rightarrow> state \<Rightarrow> error option \<times> state" where
  "openPanel h c gltfEditor s =
     (let gltfFilePath = fileName gltfEditor;
          (p, s1) =
            (case map_of (panels s) gltfFilePath of
               Some q \<Rightarrow> (q, s)
             | None \<Rightarrow>
                 (let localResourceRoots = [extensionPath c, dirname h gltfFilePath];
                      babylonRefl = getConfigResourceUrl h ''glTF.Babylon'' ''environment'' localResourceRoots;
                      threeRefl = getConfigResourceUrl h ''glTF.Three'' ''environment'' localResourceRoots;
                      q = next_panel s
                  in (q, emit (CreateWebviewPanel q localResourceRoots)
                           (s\<lparr>panels := panels s @ [(gltfFilePath, q)],
                              panel_of := (panel_of s)(q := new_panel gltfEditor babylonRefl threeRefl),
                              next_panel := Suc q\<rparr>))))
      in case updatePanel h c p gltfFilePath (getText gltfEditor) s1 of
           (Some e, s2) \<Rightarrow> (Some e, s2)
         | (None, s2) \<Rightarrow> (None, setActivePanel (Some p) (emit (Reveal p) s2)))"

text \<open>The closure given to \<^verbatim>\<open>onDidDispose\<close>, lines 83 to 87, for the file it captured.\<close>

definition didDispose :: "string \<Rightarrow> state \<Rightarrow> error option \<times> state" where
  "didDispose gltfFilePath s =
     (case map_of (panels s) gltfFilePath of
        None \<Rightarrow> (Some TypeError, s)
      | Some p \<Rightarrow>
          (let s1 = unwatchFiles p s
           in (None, updateActivePanel (s1\<lparr>panels := filter (\<lambda>(f, q). f \<noteq> gltfFilePath) (panels s1)\<rparr>))))"

section \<open>Messages from the webview\<close>

record webview_message =
  command :: string
  jsonPointer :: string
  name :: string
  msg_value :: jsval
  message :: string

text \<open>\<^verbatim>\<open>onDidReceiveMessage\<close>, lines 165 to 195.\<close>

definition onDidReceiveMessage :: "host \<Rightarrow> nat \<Rightarrow> webview_message \<Rightarrow> state \<Rightarrow> error option \<times> state" where
  "onDidReceiveMessage h p msg s =
     (if command msg = ''select''
      then (case jsonMap (panel_of s p) of
              None \<Rightarrow> (Some TypeError, s)
            | Some m \<Rightarrow>
                (case pointers m (jsonPointer msg) of
                   None \<Rightarrow> (Some TypeError, s)
                 | Some ptr \<Rightarrow>
                     (let document = textEditor (panel_of s p)
                      in (None, emit (OpenGltfSelection (positionAt h document (value_pos ptr))
                                        (positionAt h document (valueEnd_pos ptr))) s))))
      else if command msg = ''setContext''
      then (None, emit (SetContext (name msg) (msg_value msg)) s)
      else if command msg = ''showErrorMessage''
      then (None, emit (ShowErrorMessage (message msg)) s)
      else if command msg = ''showWarningMessage''
      then (None, emit (ShowWarningMessage (message msg)) s)
      else if command msg = ''onReady''
      then (None, emit (PanelReadyChanged p) (update_panel p (\<lambda>i. i\<lparr>ready := True\<rparr>) s))
      else (Some (UnknownCommand (command msg)), s))"

text \<open>
  The webview's event calls every registered listener with the message, in turn; an
  exception of one listener is reported by the host and the next listener still runs.
  \<open>deliver n\<close> runs \<open>n\<close> listeners and collects what they threw.
\<close>

fun deliver :: "nat \<Rightarrow> host \<Rightarrow> nat \<Rightarrow> webview_message \<Rightarrow> state \<Rightarrow> error list \<times> state" where
  "deliver 0 h p msg s = ([], s)"
| "deliver (Suc n) h p msg s =
     (case onDidReceiveMessage h p msg s of
        (e, s1) \<Rightarrow>
          (case deliver n h p msg s1 of
             (es, s2) \<Rightarrow> ((case e of None \<Rightarrow> [] | Some x \<Rightarrow> [x]) @ es, s2)))"

definition receiveMessage :: "host \<Rightarrow> nat \<Rightarrow> webview_message \<Rightarrow> state \<Rightarrow> error list \<times> state" where
  "receiveMessage h p msg s = deliver (messageListeners (panel_of s p)) h p msg s"

section \<open>Events\<close>

text \<open>
  What the host delivers: a request to open the preview of an editor, the disposal of a
  panel, a change of a panel's view state, a change of a watched file (with the text the
  document holds at that moment), a message from a panel's webview. A disposed panel
  receives nothing further, and a closed watch does not fire.
\<close>

datatype event =
    OpenPanel editor
  | DidDispose nat
  | DidChangeViewState nat bool
  | WatchEvent nat string
  | DidReceiveMessage nat webview_message

definition fire_watch :: "host \<Rightarrow> gltfPreview \<Rightarrow> fsWatcher \<Rightarrow> string \<Rightarrow> state \<Rightarrow> state" where
  "fire_watch h c w txt s =
     (case listener w of
        DocumentChanged p \<Rightarrow> snd (updatePanel h c p (wpath w) txt s)
      | ResourceChanged p \<Rightarrow> emit (PostMessage p ''refresh'') s)"

definition live_panel :: "state \<Rightarrow> nat \<Rightarrow> bool" where
  "live_panel s p = (p < next_panel s \<and> \<not> disposed (panel_of s p))"

definition handle_event :: "host \<Rightarrow> gltfPreview \<Rightarrow> event \<Rightarrow> state \<Rightarrow> state" where
  "handle_event h c ev s =
     (case ev of
        OpenPanel gltfEditor \<Rightarrow> snd (openPanel h c gltfEditor s)
      | DidDispose p \<Rightarrow>
          (if live_panel s p
           then snd (didDispose (fileName (textEditor (panel_of s p)))
                       (update_panel p (\<lambda>i. i\<lparr>disposed := True\<rparr>) s))
           else s)
      | DidChangeViewState p b \<Rightarrow>
          (if live_panel s p
           then updateActivePanel (update_panel p (\<lambda>i. i\<lparr>active := b\<rparr>) s)
           else s)
      | WatchEvent w txt \<Rightarrow>
          (case find (\<lambda>x. handle x = w) (fs_watchers s) of
             None \<Rightarrow> s
           | Some x \<Rightarrow> fire_watch h c x txt s)
      | DidReceiveMessage p msg \<Rightarrow>
          (if live_panel s p then snd (receiveMessage h p msg s) else s))"

fun run :: "gltfPreview \<Rightarrow> (host \<times> event) list \<Rightarrow> state \<Rightarrow> state" where
  "run c [] s = s"
| "run c ((h, ev) # evs) s = run c evs (handle_event h c ev s)"

definition init_state :: state where
  "init_state =
     \<lparr>panels = [], panel_of = (\<lambda>p. new_panel \<lparr>fileName = [], getText = []\<rparr> [] []),
      next_panel = 0, activePanel = None, fs_watchers = [], next_watcher = 0, trace = []\<rparr>"

section \<open>Reading the state\<close>

fun owner :: "callback \<Rightarrow> nat" where
  "owner (DocumentChanged p) = p"
| "owner (ResourceChanged p) = p"

text \<open>The watches held open whose callback belongs to panel \<open>p\<close>, oldest first.\<close>

definition open_watches :: "state \<Rightarrow> nat \<Rightarrow> fsWatcher list" where
  "open_watches s p = filter (\<lambda>x. owner (listener x) = p) (fs_watchers s)"

definition watch_inv :: "state \<Rightarrow> bool" where
  "watch_inv s =
     (distinct (map handle (fs_watchers s))
      \<and> list_all (\<lambda>x. handle x < next_watcher s \<and> owner (listener x) < next_panel s) (fs_watchers s)
      \<and> (\<forall>p. map handle (open_watches s p) = watchers (panel_of s p)))"

definition registry_inv :: "state \<Rightarrow> bool" where
  "registry_inv s =
     (distinct (map fst (panels s))
      \<and> list_all (\<lambda>(f, q). q < next_panel s \<and> fileName (textEditor (panel_of s q)) = f) (panels s))"

text \<open>
  Every string held by a \<^verbatim>\<open>uri\<close> key, anywhere in a tree, in the order in which the
  loops of the scan (\<^verbatim>\<open>for ... in\<close>) come to them; and the
  strings among them that do not inline their payload.
\<close>

fun uri_fields :: "json \<Rightarrow> string list"
  and uri_fields_object :: "(string \<times> json) list \<Rightarrow> string list"
  and uri_fields_array :: "json list \<Rightarrow> string list"
where
  "uri_fields (JObj kvs) = uri_fields_object kvs"
| "uri_fields (JArr xs) = uri_fields_array xs"
| "uri_fields JNull = []"
| "uri_fields (JBool b) = []"
| "uri_fields (JNum n) = []"
| "uri_fields (JStr v) = []"
| "uri_fields_object [] = []"
| "uri_fields_object ((k, v) # rest) =
     (case v of
        JStr x \<Rightarrow> (if k = ''uri'' then [x] else [])
      | _ \<Rightarrow> uri_fields v) @ uri_fields_object rest"
| "uri_fields_array [] = []"
| "uri_fields_array (v # rest) = uri_fields v @ uri_fields_array rest"

definition inlined :: "string \<Rightarrow> bool" where
  "inlined v = (take 5 v = ''data:'')"

definition ref_watches :: "host \<Rightarrow> nat \<Rightarrow> string \<Rightarrow> string list \<Rightarrow> (string \<times> callback) list" where
  "ref_watches h p dir vs =
     map (\<lambda>v. (join h dir v, ResourceChanged p)) (filter (\<lambda>v. \<not> inlined v) vs)"

text \<open>
  What a rebuild implies for a panel: one watch on the document's own path, then one for each
  reference of the tree the panel holds, with their callbacks.
\<close>

definition implied :: "host \<Rightarrow> nat \<Rightarrow> panelInfo \<Rightarrow> (string \<times> callback) list" where
  "implied h p i =
     (let documentFilePath = fileName (textEditor i)
      in (documentFilePath, DocumentChanged p)
         # (case jsonMap i of
              None \<Rightarrow> []
            | Some m \<Rightarrow>
                (case data m of
                   None \<Rightarrow> []
                 | Some t \<Rightarrow> ref_watches h p (dirname h documentFilePath) (uri_fields t))))"

text \<open>
  What the code does in a rebuild, step by step: it asks \<^verbatim>\<open>fs\<close> for a watch, or it throws.
  \<open>requests\<close> lists the steps of the scan of a tree, \<open>plan\<close> those of \<^verbatim>\<open>watchFiles\<close> once
  the old watches are closed.
\<close>

datatype request =
    Establish string callback
  | Throw error

fun requests :: "host \<Rightarrow> nat \<Rightarrow> string \<Rightarrow> json \<Rightarrow> request list"
  and requests_object :: "host \<Rightarrow> nat \<Rightarrow> string \<Rightarrow> (string \<times> json) list \<Rightarrow> request list"
  and requests_array :: "host \<Rightarrow> nat \<Rightarrow> string \<Rightarrow> json list \<Rightarrow> request list"
where
  "requests h p dir (JObj kvs) = (if shadowed kvs then [Throw TypeError] else requests_object h p dir kvs)"
| "requests h p dir (JArr xs) = requests_array h p dir xs"
| "requests h p dir JNull = []"
| "requests h p dir (JBool b) = []"
| "requests h p dir (JNum n) = []"
| "requests h p dir (JStr v) = []"
| "requests_object h p dir [] = []"
| "requests_object h p dir ((k, v) # rest) =
     (case v of
        JStr x \<Rightarrow> (if k = ''uri'' \<and> \<not> inlined x then [Establish (join h dir x) (ResourceChanged p)] else [])
      | _ \<Rightarrow> requests h p dir v) @ requests_object h p dir rest"
| "requests_array h p dir [] = []"
| "requests_array h p dir (v # rest) = requests h p dir v @ requests_array h p dir rest"

definition plan :: "host \<Rightarrow> nat \<Rightarrow> panelInfo \<Rightarrow> request list" where
  "plan h p i =
     (let documentFilePath = fileName (textEditor i)
      in Establish documentFilePath (DocumentChanged p)
         # (case jsonMap i of
              None \<Rightarrow> [Throw TypeError]
            | Some m \<Rightarrow>
                (case data m of
                   None \<Rightarrow> []
                 | Some t \<Rightarrow> requests h p (dirname h documentFilePath) t)))"

text \<open>
  Steps are taken in order until one fails: \<open>performed\<close> are the watches established by
  then, \<open>raised\<close> is the failure, if any.
\<close>

fun performed :: "host \<Rightarrow> request list \<Rightarrow> (string \<times> callback) list" where
  "performed h [] = []"
| "performed h (Establish f cb # rest) = (if fs_exists h f then (f, cb) # performed h rest else [])"
| "performed h (Throw e # rest) = []"

fun raised :: "host \<Rightarrow> request list \<Rightarrow> error option" where
  "raised h [] = None"
| "raised h (Establish f cb # rest) = (if fs_exists h f then raised h rest else Some (ENOENT f))"
| "raised h (Throw e # rest) = Some e"

fun before_throw :: "request list \<Rightarrow> (string \<times> callback) list" where
  "before_throw [] = []"
| "before_throw (Establish f cb # rest) = (f, cb) # before_throw rest"
| "before_throw (Throw e # rest) = []"

fun throws :: "request list \<Rightarrow> bool" where
  "throws [] = False"
| "throws (Establish f cb # rest) = throws rest"
| "throws (Throw e # rest) = True"

text \<open>
  A list of steps agrees with a list of watches: up to its first throw it asks for a prefix
  of them, and for all of them if it does not throw.
\<close>

definition agrees :: "request list \<Rightarrow> (string \<times> callback) list \<Rightarrow> bool" where
  "agrees rs ws = (prefix (before_throw rs) ws \<and> (\<not> throws rs \<longrightarrow> before_throw rs = ws))"

fun owned_by :: "nat \<Rightarrow> request \<Rightarrow> bool" where
  "owned_by p (Establish f cb) = (owner cb = p)"
| "owned_by p (Throw e) = True"

text \<open>The state a successful \<open>push_watch\<close> leaves, and what a list of watches says.\<close>

definition pushed :: "nat \<Rightarrow> string \<Rightarrow> callback \<Rightarrow> state \<Rightarrow> state" where
  "pushed p f cb s =
     update_panel p (\<lambda>i. i\<lparr>watchers := watchers i @ [next_watcher s]\<rparr>)
       (s\<lparr>fs_watchers := fs_watchers s @ [\<lparr>handle = next_watcher s, wpath = f, listener = cb\<rparr>],
          next_watcher := Suc (next_watcher s)\<rparr>)"

definition described :: "fsWatcher list \<Rightarrow> (string \<times> callback) list" where
  "described ws = map (\<lambda>x. (wpath x, listener x)) ws"

fun push_all :: "host \<Rightarrow> nat \<Rightarrow> request list \<Rightarrow> state \<Rightarrow> error option \<times> state" where
  "push_all h p [] s = (None, s)"
| "push_all h p (Establish f cb # rest) s =
     (case push_watch h p f cb s of
        (Some e, s') \<Rightarrow> (Some e, s')
      | (None, s') \<Rightarrow> push_all h p rest s')"
| "push_all h p (Throw e # rest) s = (Some e, s)"

text \<open>
  The page that section 4.5 of the specification describes: the fixed template with, at its
  one substitution point, a link for each stylesheet, a raw-text container for each named
  string (among them the raw text of the document) and a script element for each script; the
  placeholder of the sandbox source is substituted last. \<open>payload\<close> is written from these
  words, to be compared with what \<^verbatim>\<open>formatHtml\<close> and line 157 compute.
\<close>

definition link_tag :: "string \<Rightarrow> string" where
  "link_tag u = ''<link rel='' @ dq @ ''stylesheet'' @ dq @ '' href='' @ dq @ u @ dq @ ''></link>'' @ nl"

definition text_tag :: "string \<Rightarrow> string \<Rightarrow> string" where
  "text_tag i t =
     ''<script id='' @ dq @ i @ dq @ '' type='' @ dq @ ''text/plain'' @ dq @ ''>'' @ t @ ''</script>'' @ nl"

definition script_tag :: "string \<Rightarrow> string" where
  "script_tag u =
     ''<script type='' @ dq @ ''text/javascript'' @ dq @ '' charset='' @ dq @ ''UTF-8'' @ dq
     @ '' crossorigin='' @ dq @ ''anonymous'' @ dq @ '' src='' @ dq @ u @ dq @ ''></script>'' @ nl"

definition payload :: "host \<Rightarrow> gltfPreview \<Rightarrow> nat \<Rightarrow> string \<Rightarrow> string \<Rightarrow> panelInfo \<Rightarrow> string" where
  "payload h c version gltfFilePath gltfContent i =
     replace_cspSource h
       (replace_first h (mainHtml c) ''{assets}''
          (concat (map (\<lambda>f. link_tag (asWebviewUri h (join h (extensionRootPath c) f))) style_files)
           @ text_tag ''extensionRootPath'' (extensionRootPath c)
           @ text_tag ''defaultEngine''
               (getConfiguration h ''glTF'' (''defaultV'' @ show_nat version @ ''Engine''))
           @ text_tag ''defaultBabylonReflection'' (defaultBabylonReflection i)
           @ text_tag ''defaultThreeReflection'' (defaultThreeReflection i)
           @ text_tag ''dracoLoaderPath'' (extensionRootPath c @ ''engines/Draco/draco_decoder.js'')
           @ text_tag ''dracoLoaderWasmPath'' (extensionRootPath c @ ''engines/Draco/draco_decoder.wasm'')
           @ text_tag ''babylonHtml'' (babylonHtml c)
           @ text_tag ''cesiumHtml'' (cesiumHtml c)
           @ text_tag ''threeHtml'' (threeHtml c)
           @ text_tag ''gltf'' gltfContent
           @ text_tag ''gltfRootPath'' (dirname h gltfFilePath @ ''/'')
           @ text_tag ''gltfFileName'' (basename h gltfFilePath)
           @ concat (map (\<lambda>f. script_tag (asWebviewUri h (join h (extensionRootPath c) f))) script_files)))
       (cspSource h)"

text \<open>
  The panel object once lines 135 to 160 of \<^verbatim>\<open>updatePanel\<close> have run, and the state once
  lines 62 to 93 of \<^verbatim>\<open>openPanel\<close> have created and registered a panel.
\<close>

definition refreshed :: "host \<Rightarrow> gltfPreview \<Rightarrow> string \<Rightarrow> string \<Rightarrow> panelInfo \<Rightarrow> panelInfo" where
  "refreshed h c gltfFilePath gltfContent i =
     i\<lparr>jsonMap := Some (parseJsonMap h gltfContent),
       title := ''glTF Preview ['' @ basename h gltfFilePath @ '']'',
       html := replace_cspSource h
                 (formatHtml h c (if is_v2 (data (parseJsonMap h gltfContent)) then 2 else 1)
                    gltfContent (dirname h gltfFilePath @ ''/'') (basename h gltfFilePath)
                    (defaultBabylonReflection i) (defaultThreeReflection i))
                 (cspSource h),
       messageListeners := Suc (messageListeners i)\<rparr>"

definition created :: "host \<Rightarrow> gltfPreview \<Rightarrow> editor \<Rightarrow> state \<Rightarrow> state" where
  "created h c gltfEditor s =
     (let localResourceRoots = [extensionPath c, dirname h (fileName gltfEditor)]
      in emit (CreateWebviewPanel (next_panel s) localResourceRoots)
           (s\<lparr>panels := panels s @ [(fileName gltfEditor, next_panel s)],
              panel_of := (panel_of s)(next_panel s :=
                 new_panel gltfEditor
                   (getConfigResourceUrl h ''glTF.Babylon'' ''environment'' localResourceRoots)
                   (getConfigResourceUrl h ''glTF.Three'' ''environment'' localResourceRoots)),
              next_panel := Suc (next_panel s)\<rparr>))"

text \<open>
  The panel that \<^verbatim>\<open>openPanel\<close> works on for an editor, and the state in which it calls
  \<^verbatim>\<open>updatePanel\<close>: the registered panel if there is one, a new one otherwise.
\<close>

definition target :: "state \<Rightarrow> editor \<Rightarrow> nat" where
  "target s ed = (case map_of (panels s) (fileName ed) of Some q \<Rightarrow> q | None \<Rightarrow> next_panel s)"

definition registered :: "host \<Rightarrow> gltfPreview \<Rightarrow> editor \<Rightarrow> state \<Rightarrow> state" where
  "registered h c ed s = (case map_of (panels s) (fileName ed) of Some q \<Rightarrow> s | None \<Rightarrow> created h c ed s)"

text \<open>A sequence of calls of \<^verbatim>\<open>openPanel\<close>, each with the host as it is at that moment.\<close>

definition open_events :: "(host \<times> editor) list \<Rightarrow> (host \<times> event) list" where
  "open_events hes = map (\<lambda>(h, ed). (h, OpenPanel ed)) hes"

text \<open>Positions in a tree: the \<open>i\<close>-th property of an object, the \<open>i\<close>-th element of an array.\<close>

fun child :: "json \<Rightarrow> nat \<Rightarrow> json option" where
  "child (JObj kvs) i = (if i < length kvs then Some (snd (kvs ! i)) else None)"
| "child (JArr xs) i = (if i < length xs then Some (xs ! i) else None)"
| "child v i = None"

fun descend :: "json \<Rightarrow> nat list \<Rightarrow> json option" where
  "descend t [] = Some t"
| "descend t (i # is) = (case child t i of None \<Rightarrow> None | Some u \<Rightarrow> descend u is)"

text \<open>Somewhere in the tree there is an object with the field \<^verbatim>\<open>"uri": v\<close>.\<close>

definition field_at :: "json \<Rightarrow> string \<Rightarrow> bool" where
  "field_at t v = (\<exists>path kvs. descend t path = Some (JObj kvs) \<and> (''uri'', JStr v) \<in> set kvs)"

text \<open>Rebuilding the watch set of a panel several times in a row.\<close>

fun rebuilds :: "nat \<Rightarrow> host \<Rightarrow> nat \<Rightarrow> state \<Rightarrow> state" where
  "rebuilds 0 h p s = s"
| "rebuilds (Suc n) h p s = rebuilds n h p (snd (watchFiles h p s))"

text \<open>Updating a panel several times, each time with its own host, path and text.\<close>

fun updates :: "gltfPreview \<Rightarrow> nat \<Rightarrow> (host \<times> string \<times> string) list \<Rightarrow> state \<Rightarrow> state" where
  "updates c p [] s = s"
| "updates c p ((h, f, txt) # rest) s = updates c p rest (snd (updatePanel h c p f txt s))"

section \<open>The scan over objects that may share or contain themselves\<close>

text \<open>
  The closure \<^verbatim>\<open>watch\<close> takes any object. To say what it does on a structure that is not a
  tree, objects live in a store: a value is a primitive or a reference, and the store gives
  the properties of each object (of an array: its indices) in \<^verbatim>\<open>for ... in\<close> order. The first
  argument bounds the depth of nested calls, as the call stack does; \<open>None\<close> means that the
  scan did not return within this depth.
\<close>

datatype hval =
    HUndefined
  | HNull
  | HBool bool
  | HNum rat
  | HStr string
  | HRef nat










section \<open>Concrete documents and hosts\<close>

text \<open>
  The document of the specification's scenario,
  \<^verbatim>\<open>{"asset":{"version":"2.0"},"images":[{"uri":"tex.png"}]}\<close>, with the tree and the
  position map a parser gives for it; a document with three references, one of them inlined;
  an object that is its own property; and a host whose parser knows these texts and takes
  every other text as malformed.
\<close>

definition scenario_text :: string where
  "scenario_text =
     ''{'' @ dq @ ''asset'' @ dq @ '':{'' @ dq @ ''version'' @ dq @ '':'' @ dq @ ''2.0'' @ dq
     @ ''},'' @ dq @ ''images'' @ dq @ '':[{'' @ dq @ ''uri'' @ dq @ '':'' @ dq @ ''tex.png'' @ dq
     @ ''}]}''"

definition scenario_map :: json_map where
  "scenario_map =
     \<lparr>data = Some scenario_tree,
      pointers = [[] \<mapsto> \<lparr>value_pos = 0, valueEnd_pos = 56\<rparr>,
                  ''/asset'' \<mapsto> \<lparr>value_pos = 9, valueEnd_pos = 26\<rparr>,
                  ''/asset/version'' \<mapsto> \<lparr>value_pos = 20, valueEnd_pos = 25\<rparr>,
                  ''/images'' \<mapsto> \<lparr>value_pos = 36, valueEnd_pos = 55\<rparr>,
                  ''/images/0'' \<mapsto> \<lparr>value_pos = 37, valueEnd_pos = 54\<rparr>,
                  ''/images/0/uri'' \<mapsto> \<lparr>value_pos = 44, valueEnd_pos = 53\<rparr>]\<rparr>"

definition two_refs_tree :: json where
  "two_refs_tree =
     JObj [(''images'', JArr [JObj [(''uri'', JStr ''tex.png'')],
                              JObj [(''uri'', JStr ''data:image/png;base64,AAAA'')]]),
           (''buffers'', JArr [JObj [(''uri'', JStr ''other.bin'')]])]"

definition two_refs_text :: string where
  "two_refs_text =
     ''{'' @ dq @ ''images'' @ dq @ '':[{'' @ dq @ ''uri'' @ dq @ '':'' @ dq @ ''tex.png'' @ dq
     @ ''},{'' @ dq @ ''uri'' @ dq @ '':'' @ dq @ ''data:image/png;base64,AAAA'' @ dq
     @ ''}],'' @ dq @ ''buffers'' @ dq @ '':[{'' @ dq @ ''uri'' @ dq @ '':'' @ dq @ ''other.bin'' @ dq
     @ ''}]}''"

definition two_refs_map :: json_map where
  "two_refs_map =
     \<lparr>data = Some two_refs_tree,
      pointers = [[] \<mapsto> \<lparr>value_pos = 0, valueEnd_pos = 99\<rparr>,
                  ''/images'' \<mapsto> \<lparr>value_pos = 10, valueEnd_pos = 66\<rparr>,
                  ''/images/0'' \<mapsto> \<lparr>value_pos = 11, valueEnd_pos = 28\<rparr>,
                  ''/images/0/uri'' \<mapsto> \<lparr>value_pos = 18, valueEnd_pos = 27\<rparr>,
                  ''/images/1'' \<mapsto> \<lparr>value_pos = 29, valueEnd_pos = 65\<rparr>,
                  ''/images/1/uri'' \<mapsto> \<lparr>value_pos = 36, valueEnd_pos = 64\<rparr>,
                  ''/buffers'' \<mapsto> \<lparr>value_pos = 77, valueEnd_pos = 98\<rparr>,
                  ''/buffers/0'' \<mapsto> \<lparr>value_pos = 78, valueEnd_pos = 97\<rparr>,
                  ''/buffers/0/uri'' \<mapsto> \<lparr>value_pos = 85, valueEnd_pos = 96\<rparr>]\<rparr>"

definition failed_map :: json_map where
  "failed_map = \<lparr>data = None, pointers = Map.empty\<rparr>"

definition demo_host :: "string list \<Rightarrow> host" where
  "demo_host files =
     \<lparr>fs_exists = (\<lambda>f. f \<in> set files),
      parseJsonMap = (\<lambda>t. if t = scenario_text then scenario_map
                          else if t = two_refs_text then two_refs_map
                          else failed_map),
      dirname = (\<lambda>f. rev (tl (dropWhile (\<lambda>x. x \<noteq> CHR ''/'') (rev f)))),
      basename = (\<lambda>f. rev (takeWhile (\<lambda>x. x \<noteq> CHR ''/'') (rev f))),
      join = (\<lambda>d f. d @ ''/'' @ f),
      positionAt = (\<lambda>ed n. (0, n)),
      getConfigResourceUrl = (\<lambda>section key roots. []),
      getConfiguration = (\<lambda>section key. ''Three.js''),
      asWebviewUri = (\<lambda>f. ''vscode-resource:'' @ f),
      cspSource = ''vscode-resource:'',
      replace_first = (\<lambda>s pat r. r),
      replace_cspSource = (\<lambda>s r. s)\<rparr>"

definition demo_preview :: gltfPreview where
  "demo_preview =
     \<lparr>extensionPath = ''/ext'', extensionRootPath = ''/ext/'', mainHtml = ''{assets}'',
      babylonHtml = [], cesiumHtml = [], threeHtml = []\<rparr>"

definition demo_editor :: "string \<Rightarrow> editor" where
  "demo_editor t = \<lparr>fileName = ''/m/a.gltf'', getText = t\<rparr>"

text \<open>The scenario: both files exist, and the preview of the document has been opened.\<close>

definition scenario_host :: host where
  "scenario_host = demo_host [''/m/a.gltf'', ''/m/tex.png'']"

definition scenario_state :: state where
  "scenario_state = run demo_preview [(scenario_host, OpenPanel (demo_editor scenario_text))] init_state"



definition select_message :: "string \<Rightarrow> webview_message" where
  "select_message ptr =
     \<lparr>command = ''select'', jsonPointer = ptr, name = [], msg_value = None, message = []\<rparr>"

definition command_message :: "string \<Rightarrow> webview_message" where
  "command_message cmd =
     \<lparr>command = cmd, jsonPointer = [], name = [], msg_value = None, message = []\<rparr>"

section \<open>Auxiliary facts\<close>

subsection \<open>Version\<close>

lemma get_named_truthy:
  "truthy v \<Longrightarrow> get_named v k = Inr (case v of Some (JObj kvs) \<Rightarrow> map_of kvs k | _ \<Rightarrow> None)"
  by (cases "(v, k)" rule: get_named.cases) auto

lemma get_index0_truthy:
  "truthy (Some j) \<Longrightarrow> \<exists>c. get_index0 (Some j) = Inr c \<and> (c = Some (JStr ''2'') \<longleftrightarrow> begins_with_2 j)"
  by (cases j) (auto split: list.splits)

lemma not_truthy_not_v2: "\<not> truthy (Some j) \<Longrightarrow> \<not> begins_with_2 j"
  by (cases j) auto

lemma gltfMajorVersion_is_v2: "gltfMajorVersion gltf = Inr (if is_v2 gltf then 2 else 1)"
proof (cases "truthy gltf")
  case False
  then have "asset_version gltf = None"
    by (cases gltf rule: truthy.cases) (auto simp: asset_version_def)
  with False show ?thesis by (simp add: gltfMajorVersion_def is_v2_def)
next
  case tg: True
  let ?asset = "case gltf of Some (JObj kvs) \<Rightarrow> map_of kvs ''asset'' | _ \<Rightarrow> None"
  have ga: "get_named gltf ''asset'' = Inr ?asset" using tg by (rule get_named_truthy)
  show ?thesis
  proof (cases "truthy ?asset")
    case False
    then have "asset_version gltf = None"
      by (auto simp: asset_version_def split: option.splits json.splits)
    with tg ga False show ?thesis by (simp add: gltfMajorVersion_def is_v2_def)
  next
    case ta: True
    let ?version = "case ?asset of Some (JObj kvs) \<Rightarrow> map_of kvs ''version'' | _ \<Rightarrow> None"
    have gv: "get_named ?asset ''version'' = Inr ?version" using ta by (rule get_named_truthy)
    have av: "asset_version gltf = ?version"
      by (auto simp: asset_version_def split: option.splits json.splits)
    show ?thesis
    proof (cases ?version)
      case None
      with tg ga ta gv av show ?thesis by (simp add: gltfMajorVersion_def is_v2_def)
    next
      case (Some j)
      show ?thesis
      proof (cases "truthy (Some j)")
        case False
        with tg ga ta gv av Some not_truthy_not_v2[of j] show ?thesis
          by (simp add: gltfMajorVersion_def is_v2_def)
      next
        case True
        from get_index0_truthy[OF True] obtain c where
          c: "get_index0 (Some j) = Inr c" "c = Some (JStr ''2'') \<longleftrightarrow> begins_with_2 j" by blast
        with tg ga ta gv av Some True show ?thesis
          by (simp add: gltfMajorVersion_def is_v2_def)
      qed
    qed
  qed
qed

subsection \<open>Fields of the state under the basic operations\<close>

lemma emit_fields [simp]:
  "panels (emit e s) = panels s"
  "panel_of (emit e s) = panel_of s"
  "next_panel (emit e s) = next_panel s"
  "activePanel (emit e s) = activePanel s"
  "fs_watchers (emit e s) = fs_watchers s"
  "next_watcher (emit e s) = next_watcher s"
  "trace (emit e s) = trace s @ [e]"
  by (simp_all add: emit_def)

lemma update_panel_fields [simp]:
  "panels (update_panel p f s) = panels s"
  "panel_of (update_panel p f s) = (panel_of s)(p := f (panel_of s p))"
  "next_panel (update_panel p f s) = next_panel s"
  "activePanel (update_panel p f s) = activePanel s"
  "fs_watchers (update_panel p f s) = fs_watchers s"
  "next_watcher (update_panel p f s) = next_watcher s"
  "trace (update_panel p f s) = trace s"
  by (simp_all add: update_panel_def)

lemma close_fields [simp]:
  "panels (close w s) = panels s"
  "panel_of (close w s) = panel_of s"
  "next_panel (close w s) = next_panel s"
  "activePanel (close w s) = activePanel s"
  "fs_watchers (close w s) = filter (\<lambda>x. handle x \<noteq> w) (fs_watchers s)"
  "next_watcher (close w s) = next_watcher s"
  "trace (close w s) = trace s @ [WatcherClosed w]"
  by (simp_all add: close_def)

lemma fold_close_fields [simp]:
  "panels (fold close ws s) = panels s"
  "panel_of (fold close ws s) = panel_of s"
  "next_panel (fold close ws s) = next_panel s"
  "activePanel (fold close ws s) = activePanel s"
  "fs_watchers (fold close ws s) = filter (\<lambda>x. handle x \<notin> set ws) (fs_watchers s)"
  "next_watcher (fold close ws s) = next_watcher s"
  "trace (fold close ws s) = trace s @ map WatcherClosed ws"
  by (induction ws arbitrary: s) (auto intro: filter_cong)

lemma unwatchFiles_fields [simp]:
  "panels (unwatchFiles p s) = panels s"
  "panel_of (unwatchFiles p s) = (panel_of s)(p := (panel_of s p)\<lparr>watchers := []\<rparr>)"
  "next_panel (unwatchFiles p s) = next_panel s"
  "activePanel (unwatchFiles p s) = activePanel s"
  "fs_watchers (unwatchFiles p s) = filter (\<lambda>x. handle x \<notin> set (watchers (panel_of s p))) (fs_watchers s)"
  "next_watcher (unwatchFiles p s) = next_watcher s"
  "trace (unwatchFiles p s) = trace s @ map WatcherClosed (watchers (panel_of s p))"
  by (simp_all add: unwatchFiles_def)

lemma state_eqI:
  fixes s t :: state
  assumes "panels s = panels t" "panel_of s = panel_of t" "next_panel s = next_panel t"
    "activePanel s = activePanel t" "fs_watchers s = fs_watchers t"
    "next_watcher s = next_watcher t" "trace s = trace t"
  shows "s = t"
  using assms by (cases s, cases t) simp

lemma unwatchFiles_idem: "unwatchFiles p (unwatchFiles p s) = unwatchFiles p s"
  by (rule state_eqI) (simp_all add: fun_eq_iff)

subsection \<open>Establishing watches\<close>

lemma ref_watches_simps [simp]:
  "ref_watches h p dir [] = []"
  "ref_watches h p dir (xs @ ys) = ref_watches h p dir xs @ ref_watches h p dir ys"
  by (simp_all add: ref_watches_def)

lemma push_all_append:
  "push_all h p (xs @ ys) s =
     (case push_all h p xs s of (Some e, s') \<Rightarrow> (Some e, s') | (None, s') \<Rightarrow> push_all h p ys s')"
  by (induction h p xs s rule: push_all.induct) (auto split: prod.splits option.splits)

lemma is_external_uri_iff: "is_external_uri v \<longleftrightarrow> (\<exists>x. v = JStr x \<and> \<not> inlined x)"
  by (cases v) (auto simp: inlined_def)

lemma watch_push_all:
  "watch h p dir t s = push_all h p (requests h p dir t) s"
  "watch_object h p dir kvs s = push_all h p (requests_object h p dir kvs) s"
  "watch_array h p dir xs s = push_all h p (requests_array h p dir xs) s"
proof (induction h p dir t s and h p dir kvs s and h p dir xs s
       rule: watch_watch_object_watch_array.induct)
  case (8 h p dir key val rest s)
  show ?case
  proof (cases "key = ''uri'' \<and> is_external_uri val")
    case True
    then obtain x where x: "val = JStr x" "\<not> inlined x" "key = ''uri''"
      by (auto simp: is_external_uri_iff)
    show ?thesis using True x 8(1)
      by (auto split: prod.splits option.splits)
  next
    case False
    show ?thesis
    proof (cases "typeof_object val")
      case True
      with False 8(2,3) show ?thesis
        by (cases val) (auto simp: push_all_append split: prod.splits option.splits)
    next
      case nobj: False
      with False 8(4) show ?thesis
        by (cases val) (auto simp: is_external_uri_iff)
    qed
  qed
next
  case (10 h p dir val rest s)
  then show ?case
    by (cases val) (auto simp: push_all_append split: prod.splits option.splits)
qed simp_all

lemma push_watch_cases:
  "push_watch h p f cb s = (if fs_exists h f then (None, pushed p f cb s) else (Some (ENOENT f), s))"
  by (simp add: push_watch_def pushed_def)

lemma pushed_fields [simp]:
  "panels (pushed p f cb s) = panels s"
  "panel_of (pushed p f cb s) = (panel_of s)(p := (panel_of s p)\<lparr>watchers := watchers (panel_of s p) @ [next_watcher s]\<rparr>)"
  "next_panel (pushed p f cb s) = next_panel s"
  "activePanel (pushed p f cb s) = activePanel s"
  "fs_watchers (pushed p f cb s) = fs_watchers s @ [\<lparr>handle = next_watcher s, wpath = f, listener = cb\<rparr>]"
  "next_watcher (pushed p f cb s) = Suc (next_watcher s)"
  "trace (pushed p f cb s) = trace s"
  by (simp_all add: pushed_def)


lemma push_all_result:
  assumes "push_all h p rs s = (e, s')" "list_all (owned_by p) rs"
  shows "panels s' = panels s \<and> next_panel s' = next_panel s \<and> activePanel s' = activePanel s
       \<and> trace s' = trace s
       \<and> (\<forall>q. q \<noteq> p \<longrightarrow> panel_of s' q = panel_of s q \<and> open_watches s' q = open_watches s q)
       \<and> (\<exists>ns. panel_of s' p = (panel_of s p)\<lparr>watchers := watchers (panel_of s p) @ ns\<rparr>)
       \<and> described (open_watches s' p) = described (open_watches s p) @ performed h rs
       \<and> e = raised h rs"
  using assms
proof (induction rs arbitrary: s)
  case Nil
  then show ?case by (auto intro!: exI[of _ "[]"])
next
  case (Cons a rs)
  show ?case
  proof (cases a)
    case (Throw x)
    with Cons.prems show ?thesis by (auto intro!: exI[of _ "[]"])
  next
    case (Establish f cb)
    show ?thesis
    proof (cases "fs_exists h f")
      case False
      with Cons.prems Establish show ?thesis
        by (auto simp: push_watch_cases intro!: exI[of _ "[]"])
    next
      case True
      with Cons.prems Establish have step: "push_all h p rs (pushed p f cb s) = (e, s')"
        and own: "owner cb = p" "list_all (owned_by p) rs"
        by (auto simp: push_watch_cases)
      note IH = Cons.IH[OF step own(2)]
      from IH obtain ns where
        ns: "panel_of s' p = (panel_of (pushed p f cb s) p)\<lparr>watchers := watchers (panel_of (pushed p f cb s) p) @ ns\<rparr>"
        by blast
      have "panel_of s' p = (panel_of s p)\<lparr>watchers := watchers (panel_of s p) @ (next_watcher s # ns)\<rparr>"
        using ns by simp
      then have ex: "\<exists>ns. panel_of s' p = (panel_of s p)\<lparr>watchers := watchers (panel_of s p) @ ns\<rparr>"
        by blast
      have others: "\<forall>q. q \<noteq> p \<longrightarrow> panel_of s' q = panel_of s q \<and> open_watches s' q = open_watches s q"
        using IH own(1) by (auto simp: open_watches_def)
      have descr: "described (open_watches s' p) = described (open_watches s p) @ performed h (a # rs)"
        using IH own(1) True Establish by (simp add: open_watches_def described_def)
      show ?thesis using IH ex others descr True Establish by simp
    qed
  qed
qed

subsection \<open>The invariant of the watch sets\<close>

lemma distinct_map_eq: 
  "distinct (map f xs) \<Longrightarrow> x \<in> set xs \<Longrightarrow> y \<in> set xs \<Longrightarrow> f x = f y \<Longrightarrow> x = y"
  by (meson distinct_map inj_onD)

lemma watch_inv_unwatchFiles:
  assumes "watch_inv s"
  shows "watch_inv (unwatchFiles p s)" and "open_watches (unwatchFiles p s) p = []"
    and "q \<noteq> p \<Longrightarrow> open_watches (unwatchFiles p s) q = open_watches s q"
proof -
  let ?ws = "fs_watchers s"
  let ?W = "watchers (panel_of s p)"
  from assms have d: "distinct (map handle ?ws)"
    and b: "list_all (\<lambda>x. handle x < next_watcher s \<and> owner (listener x) < next_panel s) ?ws"
    and o: "\<And>q. map handle (open_watches s q) = watchers (panel_of s q)"
    by (auto simp: watch_inv_def)
  have W: "set ?W = handle ` {x \<in> set ?ws. owner (listener x) = p}"
    using o[of p, symmetric] by (auto simp: open_watches_def)
  have mine: "\<And>x. x \<in> set ?ws \<Longrightarrow> owner (listener x) = p \<Longrightarrow> handle x \<in> set ?W"
    using W by auto
  have other: "\<And>x. x \<in> set ?ws \<Longrightarrow> owner (listener x) \<noteq> p \<Longrightarrow> handle x \<notin> set ?W"
  proof
    fix x assume x: "x \<in> set ?ws" "owner (listener x) \<noteq> p" "handle x \<in> set ?W"
    then obtain y where y: "y \<in> set ?ws" "owner (listener y) = p" "handle x = handle y"
      using W by auto
    with d x have "x = y" by (auto dest: distinct_map_eq)
    with x y show False by simp
  qed
  show e: "open_watches (unwatchFiles p s) p = []"
    using mine by (auto simp: open_watches_def filter_empty_conv)
  show k: "open_watches (unwatchFiles p s) q = open_watches s q" if "q \<noteq> p" for q
    using other that by (auto simp: open_watches_def intro!: filter_cong)
  have "map handle (open_watches (unwatchFiles p s) q) = watchers (panel_of (unwatchFiles p s) q)" for q
    using e k[of q] o[of q] by (cases "q = p") auto
  moreover have "distinct (map handle (fs_watchers (unwatchFiles p s)))"
    using d by (simp add: distinct_map_filter)
  moreover have "list_all (\<lambda>x. handle x < next_watcher (unwatchFiles p s)
       \<and> owner (listener x) < next_panel (unwatchFiles p s)) (fs_watchers (unwatchFiles p s))"
    using b by (auto simp: list_all_iff)
  ultimately show "watch_inv (unwatchFiles p s)"
    unfolding watch_inv_def by blast
qed

lemma watch_inv_pushed:
  assumes "watch_inv s" "owner cb = p" "p < next_panel s"
  shows "watch_inv (pushed p f cb s)"
proof -
  from assms have d: "distinct (map handle (fs_watchers s))"
    and b: "list_all (\<lambda>x. handle x < next_watcher s \<and> owner (listener x) < next_panel s) (fs_watchers s)"
    and o: "\<And>q. map handle (open_watches s q) = watchers (panel_of s q)"
    by (auto simp: watch_inv_def)
  have fresh: "next_watcher s \<notin> handle ` set (fs_watchers s)"
    using b by (auto simp: list_all_iff)
  show ?thesis
    unfolding watch_inv_def
    using d b fresh o assms(2,3)
    by (auto simp: list_all_iff open_watches_def less_Suc_eq)
qed

lemma watch_inv_push_all:
  assumes "watch_inv s" "list_all (owned_by p) rs" "p < next_panel s"
  shows "watch_inv (snd (push_all h p rs s))"
  using assms
proof (induction rs arbitrary: s)
  case Nil
  then show ?case by simp
next
  case (Cons a rs)
  show ?case
  proof (cases a)
    case (Throw x)
    with Cons.prems show ?thesis by simp
  next
    case (Establish f cb)
    show ?thesis
    proof (cases "fs_exists h f")
      case False
      with Cons.prems Establish show ?thesis by (simp add: push_watch_cases)
    next
      case True
      have "watch_inv (pushed p f cb s)"
        using Cons.prems Establish by (auto intro: watch_inv_pushed)
      moreover have "p < next_panel (pushed p f cb s)" using Cons.prems by simp
      ultimately have "watch_inv (snd (push_all h p rs (pushed p f cb s)))"
        using Cons.prems Establish by (intro Cons.IH) auto
      with True Establish show ?thesis by (simp add: push_watch_cases)
    qed
  qed
qed

lemma requests_owner:
  "list_all (owned_by p) (requests h p dir t)"
  "list_all (owned_by p) (requests_object h p dir kvs)"
  "list_all (owned_by p) (requests_array h p dir xs)"
  by (induction h p dir t and h p dir kvs and h p dir xs
        rule: requests_requests_object_requests_array.induct)
     (auto split: json.splits)

lemma plan_owner: "list_all (owned_by p) (plan h p i)"
  by (auto simp: plan_def Let_def requests_owner split: option.splits)

lemma plan_unwatch [simp]:
  "plan h p (i\<lparr>watchers := ws\<rparr>) = plan h p i"
  "implied h p (i\<lparr>watchers := ws\<rparr>) = implied h p i"
  by (simp_all add: plan_def implied_def)

text \<open>\<open>watchFiles\<close> is: close everything, then take the steps of the plan in order.\<close>

lemma watchFiles_push_all:
  "watchFiles h p s = push_all h p (plan h p (panel_of s p)) (unwatchFiles p s)"
proof (cases "fs_exists h (fileName (textEditor (panel_of s p)))")
  case False
  then show ?thesis
    by (simp add: watchFiles_def plan_def push_watch_cases Let_def)
next
  case True
  then show ?thesis
    by (auto simp: watchFiles_def plan_def push_watch_cases Let_def watch_push_all
             split: option.splits prod.splits)
qed

lemma watch_inv_watchFiles:
  assumes "watch_inv s" "p < next_panel s"
  shows "watch_inv (snd (watchFiles h p s))"
  unfolding watchFiles_push_all
  using assms by (intro watch_inv_push_all watch_inv_unwatchFiles plan_owner) simp_all

text \<open>What a rebuild leaves open for the panel, and what it returns.\<close>

lemma watchFiles_result:
  assumes "watch_inv s" "watchFiles h p s = (e, s')"
  shows "described (open_watches s' p) = performed h (plan h p (panel_of s p))"
    and "e = raised h (plan h p (panel_of s p))"
    and "q \<noteq> p \<Longrightarrow> open_watches s' q = open_watches s q"
    and "panels s' = panels s" and "next_panel s' = next_panel s"
    and "activePanel s' = activePanel s"
    and "trace s' = trace s @ map WatcherClosed (watchers (panel_of s p))"
    and "q \<noteq> p \<Longrightarrow> panel_of s' q = panel_of s q"
    and "\<exists>ns. panel_of s' p = (panel_of s p)\<lparr>watchers := ns\<rparr>"
proof -
  have pa: "push_all h p (plan h p (panel_of s p)) (unwatchFiles p s) = (e, s')"
    using assms(2) by (simp add: watchFiles_push_all)
  note R = push_all_result[OF pa plan_owner]
  show "described (open_watches s' p) = performed h (plan h p (panel_of s p))"
    using R watch_inv_unwatchFiles(2)[OF assms(1), of p] by (simp add: described_def)
  show "e = raised h (plan h p (panel_of s p))" using R by simp
  show "open_watches s' q = open_watches s q" if "q \<noteq> p"
    using R watch_inv_unwatchFiles(3)[OF assms(1), of q p] that by simp
  show "panels s' = panels s" "next_panel s' = next_panel s" "activePanel s' = activePanel s"
    "trace s' = trace s @ map WatcherClosed (watchers (panel_of s p))"
    using R by simp_all
  show "panel_of s' q = panel_of s q" if "q \<noteq> p" using R that by simp
  from R obtain ns where "panel_of s' p = (panel_of (unwatchFiles p s) p)\<lparr>watchers := watchers (panel_of (unwatchFiles p s) p) @ ns\<rparr>"
    by blast
  then have "panel_of s' p = (panel_of s p)\<lparr>watchers := ns\<rparr>" by simp
  then show "\<exists>ns. panel_of s' p = (panel_of s p)\<lparr>watchers := ns\<rparr>" by blast
qed

subsection \<open>The plan and what a rebuild implies\<close>

lemma before_throw_append:
  "before_throw (xs @ ys) = (if throws xs then before_throw xs else before_throw xs @ before_throw ys)"
  "throws (xs @ ys) = (throws xs \<or> throws ys)"
  by (induction xs rule: before_throw.induct) auto


lemma agrees_append:
  assumes "agrees xs A" "agrees ys B"
  shows "agrees (xs @ ys) (A @ B)"
proof (cases "throws xs")
  case True
  then have "before_throw (xs @ ys) = before_throw xs" by (simp add: before_throw_append)
  moreover have "prefix (before_throw xs) (A @ B)"
    using assms(1) unfolding agrees_def by (meson prefix_prefix)
  ultimately show ?thesis using True by (simp add: agrees_def before_throw_append)
next
  case False
  then have A: "before_throw xs = A" using assms(1) by (simp add: agrees_def)
  have "before_throw (xs @ ys) = A @ before_throw ys"
    using False A by (simp add: before_throw_append)
  moreover have "prefix (A @ before_throw ys) (A @ B)"
    using assms(2) by (simp add: agrees_def)
  moreover have "\<not> throws (xs @ ys) \<longrightarrow> before_throw ys = B"
    using assms(2) by (simp add: agrees_def before_throw_append)
  ultimately show ?thesis by (simp add: agrees_def)
qed

lemma agrees_Nil [simp]: "agrees [] []"
  by (simp add: agrees_def)

lemma agrees_Throw [simp]: "agrees [Throw e] ws"
  by (simp add: agrees_def)

lemma agrees_Establish [simp]: "agrees [Establish f cb] [(f, cb)]"
  by (simp add: agrees_def)

lemma requests_agree:
  "agrees (requests h p dir t) (ref_watches h p dir (uri_fields t))"
  "agrees (requests_object h p dir kvs) (ref_watches h p dir (uri_fields_object kvs))"
  "agrees (requests_array h p dir xs) (ref_watches h p dir (uri_fields_array xs))"
proof (induction h p dir t and h p dir kvs and h p dir xs
        rule: requests_requests_object_requests_array.induct)
  case (8 h p dir k v rest)
  let ?A = "case v of
        JStr x \<Rightarrow> (if k = ''uri'' \<and> \<not> inlined x then [Establish (join h dir x) (ResourceChanged p)] else [])
      | _ \<Rightarrow> requests h p dir v"
  let ?B = "case v of JStr x \<Rightarrow> (if k = ''uri'' then [x] else []) | _ \<Rightarrow> uri_fields v"
  have A: "agrees ?A (ref_watches h p dir ?B)"
  proof (cases v)
    case (JStr x)
    then show ?thesis by (simp add: ref_watches_def)
  next
    case JNull with 8(1) show ?thesis by simp
  next
    case (JBool b) with 8(2) show ?thesis by simp
  next
    case (JNum n) with 8(3) show ?thesis by simp
  next
    case (JArr ys) with 8(4) show ?thesis by simp
  next
    case (JObj ps) with 8(5) show ?thesis by simp
  qed
  have "agrees (?A @ requests_object h p dir rest)
          (ref_watches h p dir ?B @ ref_watches h p dir (uri_fields_object rest))"
    using A 8(6) by (rule agrees_append)
  then show ?case by simp
next
  case (10 h p dir v rest)
  have "agrees (requests h p dir v @ requests_array h p dir rest)
          (ref_watches h p dir (uri_fields v) @ ref_watches h p dir (uri_fields_array rest))"
    using 10 by (rule agrees_append)
  then show ?case by simp
qed simp_all


lemma performed_prefix: "prefix (performed h rs) (before_throw rs)"
  by (induction h rs rule: performed.induct) simp_all

lemma raised_None:
  "raised h rs = None \<Longrightarrow> \<not> throws rs \<and> performed h rs = before_throw rs"
  by (induction h rs rule: performed.induct) (simp_all split: if_splits)

lemma performed_exist: "list_all (\<lambda>(f, cb). fs_exists h f) (performed h rs)"
  by (induction h rs rule: performed.induct) simp_all

lemma raised_exists:
  "raised h rs = None \<Longrightarrow> list_all (\<lambda>(f, cb). fs_exists h f) (before_throw rs)"
  using raised_None[of h rs] performed_exist[of h rs] by simp

lemma agrees_performed:
  assumes "agrees rs ws"
  shows "prefix (performed h rs) ws" and "raised h rs = None \<Longrightarrow> performed h rs = ws"
proof -
  have "prefix (performed h rs) (before_throw rs)" by (rule performed_prefix)
  moreover have "prefix (before_throw rs) ws" using assms by (simp add: agrees_def)
  ultimately show "prefix (performed h rs) ws" by (rule prefix_order.order_trans)
  show "performed h rs = ws" if "raised h rs = None"
    using raised_None[OF that] assms by (simp add: agrees_def)
qed

lemma plan_agrees: "agrees (plan h p i) (implied h p i)"
proof -
  let ?doc = "fileName (textEditor i)"
  have "agrees ([Establish ?doc (DocumentChanged p)]
                 @ (case jsonMap i of
                      None \<Rightarrow> [Throw TypeError]
                    | Some m \<Rightarrow> (case data m of None \<Rightarrow> [] | Some t \<Rightarrow> requests h p (dirname h ?doc) t)))
               ([(?doc, DocumentChanged p)]
                 @ (case jsonMap i of
                      None \<Rightarrow> []
                    | Some m \<Rightarrow> (case data m of None \<Rightarrow> []
                                  | Some t \<Rightarrow> ref_watches h p (dirname h ?doc) (uri_fields t))))"
    by (rule agrees_append) (simp_all add: requests_agree split: option.splits)
  then show ?thesis by (simp add: plan_def implied_def Let_def)
qed

lemma plan_implied:
  "prefix (performed h (plan h p i)) (implied h p i)"
  "raised h (plan h p i) = None \<Longrightarrow> performed h (plan h p i) = implied h p i"
  using agrees_performed[OF plan_agrees] by blast+

subsection \<open>Updating and opening, in closed form\<close>

lemma updatePanel_eq:
  "updatePanel h c p f txt s = watchFiles h p (update_panel p (refreshed h c f txt) s)"
proof -
  have comp: "update_panel p g (update_panel p g' s') = update_panel p (\<lambda>i. g (g' i)) s'" for g g' s'
    by (rule state_eqI) simp_all
  show ?thesis
    by (simp add: updatePanel_def gltfMajorVersion_is_v2 Let_def comp refreshed_def[abs_def])
qed

lemma refreshed_fields [simp]:
  "textEditor (refreshed h c f txt i) = textEditor i"
  "watchers (refreshed h c f txt i) = watchers i"
  "ready (refreshed h c f txt i) = ready i"
  "active (refreshed h c f txt i) = active i"
  "disposed (refreshed h c f txt i) = disposed i"
  "jsonMap (refreshed h c f txt i) = Some (parseJsonMap h txt)"
  "messageListeners (refreshed h c f txt i) = Suc (messageListeners i)"
  "title (refreshed h c f txt i) = ''glTF Preview ['' @ basename h f @ '']''"
  "defaultBabylonReflection (refreshed h c f txt i) = defaultBabylonReflection i"
  "defaultThreeReflection (refreshed h c f txt i) = defaultThreeReflection i"
  by (simp_all add: refreshed_def)

lemma created_fields [simp]:
  "panels (created h c ed s) = panels s @ [(fileName ed, next_panel s)]"
  "next_panel (created h c ed s) = Suc (next_panel s)"
  "activePanel (created h c ed s) = activePanel s"
  "fs_watchers (created h c ed s) = fs_watchers s"
  "next_watcher (created h c ed s) = next_watcher s"
  "trace (created h c ed s) = trace s @ [CreateWebviewPanel (next_panel s) [extensionPath c, dirname h (fileName ed)]]"
  "q \<noteq> next_panel s \<Longrightarrow> panel_of (created h c ed s) q = panel_of s q"
  "panel_of (created h c ed s) (next_panel s) =
     new_panel ed (getConfigResourceUrl h ''glTF.Babylon'' ''environment'' [extensionPath c, dirname h (fileName ed)])
       (getConfigResourceUrl h ''glTF.Three'' ''environment'' [extensionPath c, dirname h (fileName ed)])"
  by (simp_all add: created_def Let_def)

lemma new_panel_fields [simp]:
  "textEditor (new_panel ed b t) = ed"
  "watchers (new_panel ed b t) = []"
  "ready (new_panel ed b t) = False"
  "jsonMap (new_panel ed b t) = None"
  "messageListeners (new_panel ed b t) = 0"
  "disposed (new_panel ed b t) = False"
  "active (new_panel ed b t) = False"
  by (simp_all add: new_panel_def)

lemma openPanel_eq:
  "openPanel h c ed s =
     (let p = (case map_of (panels s) (fileName ed) of Some q \<Rightarrow> q | None \<Rightarrow> next_panel s);
          s1 = (case map_of (panels s) (fileName ed) of Some q \<Rightarrow> s | None \<Rightarrow> created h c ed s)
      in case updatePanel h c p (fileName ed) (getText ed) s1 of
           (Some e, s2) \<Rightarrow> (Some e, s2)
         | (None, s2) \<Rightarrow> (None, setActivePanel (Some p) (emit (Reveal p) s2)))"
  by (simp add: openPanel_def created_def Let_def split: option.splits)

lemma setActivePanel_fields [simp]:
  "panels (setActivePanel ap s) = panels s"
  "panel_of (setActivePanel ap s) = panel_of s"
  "next_panel (setActivePanel ap s) = next_panel s"
  "fs_watchers (setActivePanel ap s) = fs_watchers s"
  "next_watcher (setActivePanel ap s) = next_watcher s"
  by (simp_all add: setActivePanel_def Let_def split: option.splits)

lemma updateActivePanel_fields [simp]:
  "panels (updateActivePanel s) = panels s"
  "panel_of (updateActivePanel s) = panel_of s"
  "next_panel (updateActivePanel s) = next_panel s"
  "fs_watchers (updateActivePanel s) = fs_watchers s"
  "next_watcher (updateActivePanel s) = next_watcher s"
  by (simp_all add: updateActivePanel_def)

subsection \<open>The invariants hold in every state the events lead to\<close>

lemma watch_inv_frame:
  assumes "watch_inv s" "fs_watchers s' = fs_watchers s" "next_watcher s' = next_watcher s"
    "next_panel s \<le> next_panel s'" "\<And>q. watchers (panel_of s' q) = watchers (panel_of s q)"
  shows "watch_inv s'"
  using assms unfolding watch_inv_def open_watches_def
  by (auto simp: list_all_iff)

lemma registry_inv_frame:
  assumes "registry_inv s" "panels s' = panels s" "next_panel s' = next_panel s"
    "\<And>q. textEditor (panel_of s' q) = textEditor (panel_of s q)"
  shows "registry_inv s'"
  using assms unfolding registry_inv_def by simp

lemma watchFiles_textEditor:
  "textEditor (panel_of (snd (watchFiles h p s)) q) = textEditor (panel_of s q)"
  "panels (snd (watchFiles h p s)) = panels s"
  "next_panel (snd (watchFiles h p s)) = next_panel s"
  "messageListeners (panel_of (snd (watchFiles h p s)) q) = messageListeners (panel_of s q)"
  "ready (panel_of (snd (watchFiles h p s)) q) = ready (panel_of s q)"
  "jsonMap (panel_of (snd (watchFiles h p s)) q) = jsonMap (panel_of s q)"
  "html (panel_of (snd (watchFiles h p s)) q) = html (panel_of s q)"
  "title (panel_of (snd (watchFiles h p s)) q) = title (panel_of s q)"
  "disposed (panel_of (snd (watchFiles h p s)) q) = disposed (panel_of s q)"
  "active (panel_of (snd (watchFiles h p s)) q) = active (panel_of s q)"
proof -
  obtain e0 s2 where pa: "push_all h p (plan h p (panel_of s p)) (unwatchFiles p s) = (e0, s2)"
    by (cases "push_all h p (plan h p (panel_of s p)) (unwatchFiles p s)")
  note R = push_all_result[OF pa plan_owner]
  have s': "snd (watchFiles h p s) = s2"
    using pa by (simp add: watchFiles_push_all)
  from R obtain ns where ns: "panel_of s2 p = (panel_of (unwatchFiles p s) p)\<lparr>watchers := watchers (panel_of (unwatchFiles p s) p) @ ns\<rparr>"
    by blast
  from R have oth: "q \<noteq> p \<Longrightarrow> panel_of s2 q = panel_of (unwatchFiles p s) q" by simp
  show "textEditor (panel_of (snd (watchFiles h p s)) q) = textEditor (panel_of s q)"
    "messageListeners (panel_of (snd (watchFiles h p s)) q) = messageListeners (panel_of s q)"
    "ready (panel_of (snd (watchFiles h p s)) q) = ready (panel_of s q)"
    "jsonMap (panel_of (snd (watchFiles h p s)) q) = jsonMap (panel_of s q)"
    "html (panel_of (snd (watchFiles h p s)) q) = html (panel_of s q)"
    "title (panel_of (snd (watchFiles h p s)) q) = title (panel_of s q)"
    "disposed (panel_of (snd (watchFiles h p s)) q) = disposed (panel_of s q)"
    "active (panel_of (snd (watchFiles h p s)) q) = active (panel_of s q)"
    using ns oth unfolding s' by (cases "q = p"; simp)+
  show "panels (snd (watchFiles h p s)) = panels s" "next_panel (snd (watchFiles h p s)) = next_panel s"
    using R unfolding s' by simp_all
qed

lemma registry_inv_watchFiles: "registry_inv s \<Longrightarrow> registry_inv (snd (watchFiles h p s))"
  by (erule registry_inv_frame) (simp_all add: watchFiles_textEditor)

lemma inv_updatePanel:
  assumes "watch_inv s" "registry_inv s" "p < next_panel s"
  shows "watch_inv (snd (updatePanel h c p f txt s))" "registry_inv (snd (updatePanel h c p f txt s))"
proof -
  let ?s1 = "update_panel p (refreshed h c f txt) s"
  have w: "watch_inv ?s1" by (rule watch_inv_frame[OF assms(1)]) simp_all
  have r: "registry_inv ?s1" by (rule registry_inv_frame[OF assms(2)]) simp_all
  show "watch_inv (snd (updatePanel h c p f txt s))"
    unfolding updatePanel_eq using w assms(3) by (intro watch_inv_watchFiles) simp_all
  show "registry_inv (snd (updatePanel h c p f txt s))"
    unfolding updatePanel_eq using r by (rule registry_inv_watchFiles)
qed

lemma inv_created:
  assumes "watch_inv s" "registry_inv s" "map_of (panels s) (fileName ed) = None"
  shows "watch_inv (created h c ed s)" "registry_inv (created h c ed s)"
proof -
  from assms(1) have d: "distinct (map handle (fs_watchers s))"
    and b: "list_all (\<lambda>x. handle x < next_watcher s \<and> owner (listener x) < next_panel s) (fs_watchers s)"
    and o: "\<And>q. map handle (open_watches s q) = watchers (panel_of s q)"
    by (auto simp: watch_inv_def)
  have none: "open_watches s (next_panel s) = []"
    using b by (auto simp: open_watches_def list_all_iff filter_empty_conv)
  have "map handle (open_watches (created h c ed s) q) = watchers (panel_of (created h c ed s) q)" for q
    using o[of q] none by (cases "q = next_panel s") (simp_all add: open_watches_def)
  then show "watch_inv (created h c ed s)"
    unfolding watch_inv_def using d b by (auto simp: list_all_iff less_Suc_eq)
  from assms(2) have rd: "distinct (map fst (panels s))"
    and rb: "list_all (\<lambda>(f, q). q < next_panel s \<and> fileName (textEditor (panel_of s q)) = f) (panels s)"
    by (auto simp: registry_inv_def)
  have nf: "fileName ed \<notin> fst ` set (panels s)"
    using assms(3) by (simp add: map_of_eq_None_iff)
  show "registry_inv (created h c ed s)"
    unfolding registry_inv_def using rd rb nf
    by (auto simp: list_all_iff less_Suc_eq)
qed

lemma map_of_registry:
  "registry_inv s \<Longrightarrow> map_of (panels s) f = Some q \<Longrightarrow> q < next_panel s"
  by (auto simp: registry_inv_def list_all_iff dest!: map_of_SomeD)

lemma inv_openPanel:
  assumes "watch_inv s" "registry_inv s"
  shows "watch_inv (snd (openPanel h c ed s))" "registry_inv (snd (openPanel h c ed s))"
proof -
  let ?p = "case map_of (panels s) (fileName ed) of Some q \<Rightarrow> q | None \<Rightarrow> next_panel s"
  let ?s1 = "case map_of (panels s) (fileName ed) of Some q \<Rightarrow> s | None \<Rightarrow> created h c ed s"
  have s1: "watch_inv ?s1" "registry_inv ?s1" "?p < next_panel ?s1"
    using assms by (auto split: option.splits intro: inv_created map_of_registry)
  let ?s2 = "snd (updatePanel h c ?p (fileName ed) (getText ed) ?s1)"
  have s2: "watch_inv ?s2" "registry_inv ?s2"
    using s1 by (auto intro: inv_updatePanel)
  have w3: "watch_inv (setActivePanel (Some ?p) (emit (Reveal ?p) ?s2))"
    by (rule watch_inv_frame[OF s2(1)]) simp_all
  have r3: "registry_inv (setActivePanel (Some ?p) (emit (Reveal ?p) ?s2))"
    by (rule registry_inv_frame[OF s2(2)]) simp_all
  show "watch_inv (snd (openPanel h c ed s))"
    using s2(1) w3 by (auto simp: openPanel_eq Let_def split: prod.splits option.splits)
  show "registry_inv (snd (openPanel h c ed s))"
    using s2(2) r3 by (auto simp: openPanel_eq Let_def split: prod.splits option.splits)
qed

lemma onDidReceiveMessage_frame:
  "panels (snd (onDidReceiveMessage h p msg s)) = panels s"
  "next_panel (snd (onDidReceiveMessage h p msg s)) = next_panel s"
  "fs_watchers (snd (onDidReceiveMessage h p msg s)) = fs_watchers s"
  "next_watcher (snd (onDidReceiveMessage h p msg s)) = next_watcher s"
  "activePanel (snd (onDidReceiveMessage h p msg s)) = activePanel s"
  "watchers (panel_of (snd (onDidReceiveMessage h p msg s)) q) = watchers (panel_of s q)"
  "textEditor (panel_of (snd (onDidReceiveMessage h p msg s)) q) = textEditor (panel_of s q)"
  "messageListeners (panel_of (snd (onDidReceiveMessage h p msg s)) q) = messageListeners (panel_of s q)"
  "jsonMap (panel_of (snd (onDidReceiveMessage h p msg s)) q) = jsonMap (panel_of s q)"
  by (simp_all add: onDidReceiveMessage_def Let_def split: option.splits)

lemma deliver_Suc_snd:
  "snd (deliver (Suc n) h p msg s) = snd (deliver n h p msg (snd (onDidReceiveMessage h p msg s)))"
  by (auto split: prod.splits)

lemma deliver_frame_all:
  "panels (snd (deliver n h p msg s)) = panels s
   \<and> next_panel (snd (deliver n h p msg s)) = next_panel s
   \<and> fs_watchers (snd (deliver n h p msg s)) = fs_watchers s
   \<and> next_watcher (snd (deliver n h p msg s)) = next_watcher s
   \<and> activePanel (snd (deliver n h p msg s)) = activePanel s
   \<and> watchers (panel_of (snd (deliver n h p msg s)) q) = watchers (panel_of s q)
   \<and> textEditor (panel_of (snd (deliver n h p msg s)) q) = textEditor (panel_of s q)
   \<and> messageListeners (panel_of (snd (deliver n h p msg s)) q) = messageListeners (panel_of s q)
   \<and> jsonMap (panel_of (snd (deliver n h p msg s)) q) = jsonMap (panel_of s q)"
proof (induction n arbitrary: s)
  case 0
  show ?case by simp
next
  case (Suc n)
  show ?case unfolding deliver_Suc_snd
    using Suc.IH[of "snd (onDidReceiveMessage h p msg s)"]
    by (simp add: onDidReceiveMessage_frame)
qed

lemma deliver_frame:
  "panels (snd (deliver n h p msg s)) = panels s"
  "next_panel (snd (deliver n h p msg s)) = next_panel s"
  "fs_watchers (snd (deliver n h p msg s)) = fs_watchers s"
  "next_watcher (snd (deliver n h p msg s)) = next_watcher s"
  "activePanel (snd (deliver n h p msg s)) = activePanel s"
  "watchers (panel_of (snd (deliver n h p msg s)) q) = watchers (panel_of s q)"
  "textEditor (panel_of (snd (deliver n h p msg s)) q) = textEditor (panel_of s q)"
  "messageListeners (panel_of (snd (deliver n h p msg s)) q) = messageListeners (panel_of s q)"
  "jsonMap (panel_of (snd (deliver n h p msg s)) q) = jsonMap (panel_of s q)"
  using deliver_frame_all[of n h p msg s q] by simp_all

lemma inv_receiveMessage:
  assumes "watch_inv s" "registry_inv s"
  shows "watch_inv (snd (receiveMessage h p msg s))" "registry_inv (snd (receiveMessage h p msg s))"
  unfolding receiveMessage_def
  by (rule watch_inv_frame[OF assms(1)] registry_inv_frame[OF assms(2)]; simp add: deliver_frame)+

lemma inv_didDispose:
  assumes "watch_inv s" "registry_inv s"
  shows "watch_inv (snd (didDispose f s))" "registry_inv (snd (didDispose f s))"
proof -
  show "watch_inv (snd (didDispose f s))"
  proof (cases "map_of (panels s) f")
    case None
    with assms show ?thesis by (simp add: didDispose_def)
  next
    case (Some p)
    have u: "watch_inv (unwatchFiles p s)" using assms(1) by (rule watch_inv_unwatchFiles)
    have "watch_inv (updateActivePanel ((unwatchFiles p s)\<lparr>panels := filter (\<lambda>(g, q). g \<noteq> f) (panels (unwatchFiles p s))\<rparr>))"
      by (rule watch_inv_frame[OF u]) simp_all
    with Some show ?thesis by (simp add: didDispose_def Let_def)
  qed
  show "registry_inv (snd (didDispose f s))"
  proof (cases "map_of (panels s) f")
    case None
    with assms show ?thesis by (simp add: didDispose_def)
  next
    case (Some p)
    have "registry_inv (updateActivePanel ((unwatchFiles p s)\<lparr>panels := filter (\<lambda>(g, q). g \<noteq> f) (panels (unwatchFiles p s))\<rparr>))"
      using assms(2) unfolding registry_inv_def
      by (auto simp: list_all_iff distinct_map_filter)
    with Some show ?thesis by (simp add: didDispose_def Let_def)
  qed
qed

lemma inv_handle_event:
  assumes "watch_inv s" "registry_inv s"
  shows "watch_inv (handle_event h c ev s)" "registry_inv (handle_event h c ev s)"
proof -
  have "watch_inv (handle_event h c ev s) \<and> registry_inv (handle_event h c ev s)"
  proof (cases ev)
    case (OpenPanel ed)
    with assms show ?thesis by (simp add: handle_event_def inv_openPanel)
  next
    case (DidDispose p)
    let ?s1 = "update_panel p (\<lambda>i. i\<lparr>disposed := True\<rparr>) s"
    have "watch_inv ?s1" by (rule watch_inv_frame[OF assms(1)]) simp_all
    moreover have "registry_inv ?s1" by (rule registry_inv_frame[OF assms(2)]) simp_all
    ultimately show ?thesis using assms DidDispose
      by (simp add: handle_event_def inv_didDispose)
  next
    case (DidChangeViewState p b)
    let ?s1 = "updateActivePanel (update_panel p (\<lambda>i. i\<lparr>active := b\<rparr>) s)"
    have "watch_inv ?s1" by (rule watch_inv_frame[OF assms(1)]) simp_all
    moreover have "registry_inv ?s1" by (rule registry_inv_frame[OF assms(2)]) simp_all
    ultimately show ?thesis using assms DidChangeViewState
      by (simp add: handle_event_def)
  next
    case (WatchEvent w tx)
    show ?thesis
    proof (cases "find (\<lambda>x. handle x = w) (fs_watchers s)")
      case None
      with assms WatchEvent show ?thesis by (simp add: handle_event_def)
    next
      case (Some x)
      then have "x \<in> set (fs_watchers s)" by (auto simp: find_Some_iff)
      with assms(1) have own: "owner (listener x) < next_panel s"
        by (auto simp: watch_inv_def list_all_iff)
      have "watch_inv (fire_watch h c x tx s) \<and> registry_inv (fire_watch h c x tx s)"
      proof (cases "listener x")
        case (DocumentChanged p)
        with own assms show ?thesis by (simp add: fire_watch_def inv_updatePanel)
      next
        case (ResourceChanged p)
        have "watch_inv (emit (PostMessage p ''refresh'') s)"
          by (rule watch_inv_frame[OF assms(1)]) simp_all
        moreover have "registry_inv (emit (PostMessage p ''refresh'') s)"
          by (rule registry_inv_frame[OF assms(2)]) simp_all
        ultimately show ?thesis using ResourceChanged by (simp add: fire_watch_def)
      qed
      with Some WatchEvent show ?thesis by (simp add: handle_event_def)
    qed
  next
    case (DidReceiveMessage p msg)
    with assms show ?thesis by (simp add: handle_event_def inv_receiveMessage)
  qed
  then show "watch_inv (handle_event h c ev s)" "registry_inv (handle_event h c ev s)" by simp_all
qed

lemma inv_init: "watch_inv init_state" "registry_inv init_state"
  by (simp_all add: watch_inv_def registry_inv_def init_state_def open_watches_def)

lemma inv_run_from:
  "watch_inv s \<Longrightarrow> registry_inv s \<Longrightarrow> watch_inv (run c evs s) \<and> registry_inv (run c evs s)"
  by (induction evs arbitrary: s) (auto simp: inv_handle_event)

lemma inv_run: "watch_inv (run c evs init_state)" "registry_inv (run c evs init_state)"
  using inv_run_from[OF inv_init] by simp_all

subsection \<open>Messages, registry and rebuilds\<close>

lemma deliver_onReady:
  "deliver n h p (command_message ''onReady'') s =
     ([], (if n = 0 then s else update_panel p (\<lambda>i. i\<lparr>ready := True\<rparr>) s)
            \<lparr>trace := trace s @ replicate n (PanelReadyChanged p)\<rparr>)"
proof (induction n arbitrary: s)
  case 0
  show ?case by simp
next
  case (Suc n)
  have one: "onDidReceiveMessage h p (command_message ''onReady'') s
      = (None, emit (PanelReadyChanged p) (update_panel p (\<lambda>i. i\<lparr>ready := True\<rparr>) s))"
    by (simp add: onDidReceiveMessage_def command_message_def)
  show ?case
    unfolding deliver.simps one Suc.IH
    by (auto intro!: state_eqI simp: fun_eq_iff)
qed

lemma updatePanel_listeners:
  "messageListeners (panel_of (snd (updatePanel h c p f tx s)) p) = Suc (messageListeners (panel_of s p))"
  by (simp add: updatePanel_eq watchFiles_textEditor)

lemma updates_listeners:
  "messageListeners (panel_of (updates c p us s) p) = messageListeners (panel_of s p) + length us"
  by (induction us arbitrary: s) (auto simp: updatePanel_listeners)

lemma openPanel_eq2:
  "openPanel h c ed s =
     (case updatePanel h c (target s ed) (fileName ed) (getText ed) (registered h c ed s) of
        (Some e, s2) \<Rightarrow> (Some e, s2)
      | (None, s2) \<Rightarrow> (None, setActivePanel (Some (target s ed)) (emit (Reveal (target s ed)) s2)))"
  unfolding openPanel_eq target_def registered_def Let_def ..

lemma openPanel_cases:
  obtains (threw) e where
      "openPanel h c ed s = (Some e, snd (updatePanel h c (target s ed) (fileName ed) (getText ed) (registered h c ed s)))"
      "fst (updatePanel h c (target s ed) (fileName ed) (getText ed) (registered h c ed s)) = Some e"
  | (returned)
      "openPanel h c ed s =
         (None, setActivePanel (Some (target s ed)) (emit (Reveal (target s ed))
            (snd (updatePanel h c (target s ed) (fileName ed) (getText ed) (registered h c ed s)))))"
      "fst (updatePanel h c (target s ed) (fileName ed) (getText ed) (registered h c ed s)) = None"
proof -
  obtain e s2 where u: "updatePanel h c (target s ed) (fileName ed) (getText ed) (registered h c ed s) = (e, s2)"
    by (cases "updatePanel h c (target s ed) (fileName ed) (getText ed) (registered h c ed s)")
  show thesis
  proof (cases e)
    case None
    with u show ?thesis by (intro returned) (simp_all add: openPanel_eq2)
  next
    case (Some x)
    with u show ?thesis by (intro threw[of x]) (simp_all add: openPanel_eq2)
  qed
qed

lemma updatePanel_fields:
  "panels (snd (updatePanel h c p f tx s)) = panels s"
  "next_panel (snd (updatePanel h c p f tx s)) = next_panel s"
  "textEditor (panel_of (snd (updatePanel h c p f tx s)) q) = textEditor (panel_of s q)"
  "jsonMap (panel_of (snd (updatePanel h c p f tx s)) q)
     = (if q = p then Some (parseJsonMap h tx) else jsonMap (panel_of s q))"
  "messageListeners (panel_of (snd (updatePanel h c p f tx s)) q)
     = (if q = p then Suc (messageListeners (panel_of s q)) else messageListeners (panel_of s q))"
  by (simp_all add: updatePanel_eq watchFiles_textEditor)

lemma openPanel_fields:
  "panels (snd (openPanel h c ed s)) = panels (registered h c ed s)"
  "next_panel (snd (openPanel h c ed s)) = next_panel (registered h c ed s)"
  "textEditor (panel_of (snd (openPanel h c ed s)) q) = textEditor (panel_of (registered h c ed s) q)"
  "jsonMap (panel_of (snd (openPanel h c ed s)) q)
     = (if q = target s ed then Some (parseJsonMap h (getText ed)) else jsonMap (panel_of (registered h c ed s) q))"
  "messageListeners (panel_of (snd (openPanel h c ed s)) q)
     = (if q = target s ed then Suc (messageListeners (panel_of (registered h c ed s) q))
        else messageListeners (panel_of (registered h c ed s) q))"
  "fst (openPanel h c ed s) = fst (updatePanel h c (target s ed) (fileName ed) (getText ed) (registered h c ed s))"
  by (cases h c ed s rule: openPanel_cases; simp add: updatePanel_fields)+

lemma registered_fields:
  "next_panel s \<le> next_panel (registered h c ed s)"
  "map_of (panels s) f = Some q \<Longrightarrow> map_of (panels (registered h c ed s)) f = Some q"
  "q < next_panel s \<Longrightarrow> textEditor (panel_of (registered h c ed s) q) = textEditor (panel_of s q)"
  "map_of (panels (registered h c ed s)) (fileName ed) = Some (target s ed)"
  by (auto simp: registered_def target_def map_of_append map_add_def split: option.splits)

lemma registered_new:
  assumes "next_panel s \<le> q" "q < next_panel (registered h c ed s)"
  shows "q = target s ed" "textEditor (panel_of (registered h c ed s) q) = ed"
proof -
  from assms have n: "map_of (panels s) (fileName ed) = None"
    by (cases "map_of (panels s) (fileName ed)") (simp_all add: registered_def)
  with assms have q: "q = next_panel s" by (simp add: registered_def)
  show "q = target s ed" using n q by (simp add: target_def)
  show "textEditor (panel_of (registered h c ed s) q) = ed" using n q by (simp add: registered_def)
qed

lemma open_events_run:
  "next_panel s \<le> next_panel (run c (open_events hes) s)
   \<and> (\<forall>f q. map_of (panels s) f = Some q \<longrightarrow> map_of (panels (run c (open_events hes) s)) f = Some q)
   \<and> (\<forall>q. q < next_panel s \<longrightarrow>
          textEditor (panel_of (run c (open_events hes) s) q) = textEditor (panel_of s q))
   \<and> (\<forall>q. next_panel s \<le> q \<and> q < next_panel (run c (open_events hes) s) \<longrightarrow>
          map_of (panels (run c (open_events hes) s))
            (fileName (textEditor (panel_of (run c (open_events hes) s) q))) = Some q)"
proof (induction hes arbitrary: s)
  case Nil
  show ?case by (auto simp: open_events_def)
next
  case (Cons a hes)
  obtain h ed where a: "a = (h, ed)" by (cases a)
  define s1 where "s1 = snd (openPanel h c ed s)"
  define s' where "s' = run c (open_events hes) s1"
  have run: "run c (open_events (a # hes)) s = s'"
    by (simp add: a open_events_def handle_event_def s1_def s'_def)
  from Cons.IH[of s1] have
    IH1: "next_panel s1 \<le> next_panel s'"
    and IH2: "\<And>f q. map_of (panels s1) f = Some q \<Longrightarrow> map_of (panels s') f = Some q"
    and IH3: "\<And>q. q < next_panel s1 \<Longrightarrow> textEditor (panel_of s' q) = textEditor (panel_of s1 q)"
    and IH4: "\<And>q. next_panel s1 \<le> q \<Longrightarrow> q < next_panel s' \<Longrightarrow>
           map_of (panels s') (fileName (textEditor (panel_of s' q))) = Some q"
    unfolding s'_def by blast+
  have le: "next_panel s \<le> next_panel s1"
    by (simp add: s1_def openPanel_fields registered_fields)
  have c1: "next_panel s \<le> next_panel s'" using le IH1 by simp
  have c2: "map_of (panels s') f = Some q" if "map_of (panels s) f = Some q" for f q
    using that by (intro IH2) (simp add: s1_def openPanel_fields registered_fields)
  have c3: "textEditor (panel_of s' q) = textEditor (panel_of s q)" if "q < next_panel s" for q
  proof -
    have "textEditor (panel_of s' q) = textEditor (panel_of s1 q)"
      using that le by (intro IH3) simp
    also have "\<dots> = textEditor (panel_of s q)"
      using that by (simp add: s1_def openPanel_fields registered_fields)
    finally show ?thesis .
  qed
  have c4: "map_of (panels s') (fileName (textEditor (panel_of s' q))) = Some q"
    if "next_panel s \<le> q" "q < next_panel s'" for q
  proof (cases "q < next_panel s1")
    case True
    then have "q < next_panel (registered h c ed s)" by (simp add: s1_def openPanel_fields)
    from registered_new[OF that(1) this]
    have q: "q = target s ed" "textEditor (panel_of s1 q) = ed"
      by (simp_all add: s1_def openPanel_fields)
    have "map_of (panels s1) (fileName ed) = Some q"
      using q by (simp add: s1_def openPanel_fields registered_fields)
    then have "map_of (panels s') (fileName ed) = Some q" by (rule IH2)
    moreover have "textEditor (panel_of s' q) = ed" using IH3[OF True] q by simp
    ultimately show ?thesis by simp
  next
    case False
    then show ?thesis using that by (intro IH4) simp_all
  qed
  show ?case unfolding run using c1 c2 c3 c4 by blast
qed

lemma all_equal_length:
  assumes "distinct xs" "\<And>x. x \<in> set xs \<Longrightarrow> x = a"
  shows "length xs \<le> 1"
proof (cases xs)
  case Nil
  then show ?thesis by simp
next
  case (Cons x ys)
  show ?thesis
  proof (cases ys)
    case Nil
    with Cons show ?thesis by simp
  next
    case (Cons y zs)
    with \<open>xs = x # ys\<close> assms(2)[of x] assms(2)[of y] assms(1) show ?thesis by simp
  qed
qed

lemma plan_cong:
  "textEditor i = textEditor j \<Longrightarrow> jsonMap i = jsonMap j \<Longrightarrow> plan h p i = plan h p j"
  "textEditor i = textEditor j \<Longrightarrow> jsonMap i = jsonMap j \<Longrightarrow> implied h p i = implied h p j"
  by (simp_all add: plan_def implied_def)

lemma plan_watchFiles [simp]:
  "plan h p (panel_of (snd (watchFiles h' p' s)) q) = plan h p (panel_of s q)"
  "implied h p (panel_of (snd (watchFiles h' p' s)) q) = implied h p (panel_of s q)"
  by (rule plan_cong; simp add: watchFiles_textEditor)+

lemma rebuilds_result:
  assumes "watch_inv s" "p < next_panel s"
  shows "watch_inv (rebuilds n h p s)"
    and "next_panel (rebuilds n h p s) = next_panel s"
    and "plan h p (panel_of (rebuilds n h p s) p) = plan h p (panel_of s p)"
    and "q \<noteq> p \<Longrightarrow> open_watches (rebuilds n h p s) q = open_watches s q"
    and "0 < n \<Longrightarrow> described (open_watches (rebuilds n h p s) p) = performed h (plan h p (panel_of s p))"
proof -
  have "watch_inv (rebuilds n h p s) \<and> next_panel (rebuilds n h p s) = next_panel s
      \<and> plan h p (panel_of (rebuilds n h p s) p) = plan h p (panel_of s p)
      \<and> (q \<noteq> p \<longrightarrow> open_watches (rebuilds n h p s) q = open_watches s q)
      \<and> (0 < n \<longrightarrow> described (open_watches (rebuilds n h p s) p) = performed h (plan h p (panel_of s p)))"
    using assms
  proof (induction n arbitrary: s)
    case 0
    then show ?case by simp
  next
    case (Suc n)
    let ?s1 = "snd (watchFiles h p s)"
    have w1: "watch_inv ?s1" using Suc.prems by (rule watch_inv_watchFiles)
    have p1: "p < next_panel ?s1" using Suc.prems by (simp add: watchFiles_textEditor)
    note IH = Suc.IH[OF w1 p1]
    have pr: "watchFiles h p s = (fst (watchFiles h p s), ?s1)" by simp
    note R = watchFiles_result[OF Suc.prems(1) pr]
    have one: "described (open_watches ?s1 p) = performed h (plan h p (panel_of s p))"
      by (rule R(1))
    have "described (open_watches (rebuilds n h p ?s1) p) = performed h (plan h p (panel_of s p))"
    proof (cases n)
      case 0
      with one show ?thesis by simp
    next
      case (Suc m)
      with IH show ?thesis by simp
    qed
    moreover have "q \<noteq> p \<longrightarrow> open_watches (rebuilds n h p ?s1) q = open_watches s q"
      using IH R(3)[of q] by simp
    ultimately show ?case using IH by (simp add: watchFiles_textEditor)
  qed
  then show "watch_inv (rebuilds n h p s)"
    and "next_panel (rebuilds n h p s) = next_panel s"
    and "plan h p (panel_of (rebuilds n h p s) p) = plan h p (panel_of s p)"
    and "q \<noteq> p \<Longrightarrow> open_watches (rebuilds n h p s) q = open_watches s q"
    and "0 < n \<Longrightarrow> described (open_watches (rebuilds n h p s) p) = performed h (plan h p (panel_of s p))"
    by simp_all
qed

lemma watch_inv_distinct:
  assumes "watch_inv s"
  shows "map handle (open_watches s p) = watchers (panel_of s p)" "distinct (watchers (panel_of s p))"
proof -
  show m: "map handle (open_watches s p) = watchers (panel_of s p)"
    using assms by (simp add: watch_inv_def)
  have "distinct (map handle (fs_watchers s))" using assms by (simp add: watch_inv_def)
  then have "distinct (map handle (open_watches s p))"
    unfolding open_watches_def by (rule distinct_map_filter)
  with m show "distinct (watchers (panel_of s p))" by simp
qed

subsection \<open>Fields at any depth\<close>

lemma uri_member_object:
  "(''uri'', JStr v) \<in> set kvs \<Longrightarrow> v \<in> set (uri_fields_object kvs)"
  by (induction kvs) (auto split: json.splits)

lemma uri_fields_object_mono:
  "(k, u) \<in> set kvs \<Longrightarrow> set (uri_fields u) \<subseteq> set (uri_fields_object kvs)"
  by (induction kvs) (auto split: json.splits)

lemma uri_fields_array_mono:
  "u \<in> set xs \<Longrightarrow> set (uri_fields u) \<subseteq> set (uri_fields_array xs)"
  by (induction xs) auto

lemma uri_fields_child:
  "child t i = Some u \<Longrightarrow> set (uri_fields u) \<subseteq> set (uri_fields t)"
proof (cases t)
  case (JObj kvs)
  assume "child t i = Some u"
  with JObj have "i < length kvs" "u = snd (kvs ! i)" by (auto split: if_splits)
  then have "(fst (kvs ! i), u) \<in> set kvs" by (metis nth_mem prod.collapse)
  with JObj show ?thesis using uri_fields_object_mono by simp
next
  case (JArr xs)
  assume "child t i = Some u"
  with JArr have "u \<in> set xs" by (auto split: if_splits)
  with JArr show ?thesis using uri_fields_array_mono by simp
qed auto

lemma uri_fields_complete:
  "descend t path = Some (JObj kvs) \<Longrightarrow> (''uri'', JStr v) \<in> set kvs \<Longrightarrow> v \<in> set (uri_fields t)"
proof (induction path arbitrary: t)
  case Nil
  then show ?case by (simp add: uri_member_object)
next
  case (Cons i path)
  then obtain u where u: "child t i = Some u" "descend u path = Some (JObj kvs)"
    by (auto split: option.splits)
  from Cons.IH[OF u(2) Cons.prems(2)] uri_fields_child[OF u(1)] show ?case by blast
qed

lemma field_at_child:
  assumes "child t i = Some u" "field_at u v"
  shows "field_at t v"
proof -
  from assms(2) obtain path kvs where "descend u path = Some (JObj kvs)" "(''uri'', JStr v) \<in> set kvs"
    unfolding field_at_def by blast
  with assms(1) have "descend t (i # path) = Some (JObj kvs)" by simp
  with \<open>(''uri'', JStr v) \<in> set kvs\<close> show ?thesis unfolding field_at_def by blast
qed

lemma uri_fields_sound:
  "v \<in> set (uri_fields t) \<Longrightarrow> field_at t v"
  "v \<in> set (uri_fields_object kvs) \<Longrightarrow>
     (''uri'', JStr v) \<in> set kvs \<or> (\<exists>i < length kvs. field_at (snd (kvs ! i)) v)"
  "v \<in> set (uri_fields_array xs) \<Longrightarrow> (\<exists>i < length xs. field_at (xs ! i) v)"
proof (induction t and kvs and xs rule: uri_fields_uri_fields_object_uri_fields_array.induct)
  case (1 kvs)
  then consider "(''uri'', JStr v) \<in> set kvs" | i where "i < length kvs" "field_at (snd (kvs ! i)) v"
    by auto
  then show ?case
  proof cases
    case 1
    have "descend (JObj kvs) [] = Some (JObj kvs)" by simp
    with 1 show ?thesis unfolding field_at_def by blast
  next
    case 2
    then have "child (JObj kvs) i = Some (snd (kvs ! i))" by simp
    then show ?thesis using 2(2) by (rule field_at_child)
  qed
next
  case (2 xs)
  then obtain i where i: "i < length xs" "field_at (xs ! i) v" by auto
  then have "child (JArr xs) i = Some (xs ! i)" by simp
  then show ?case using i(2) by (rule field_at_child)
next
  case (8 k u rest)
  from 8(7) consider (here) "v \<in> set (case u of JStr x \<Rightarrow> (if k = ''uri'' then [x] else []) | _ \<Rightarrow> uri_fields u)"
    | (later) "v \<in> set (uri_fields_object rest)" by auto
  then show ?case
  proof cases
    case here
    show ?thesis
    proof (cases u)
      case (JStr x)
      with here show ?thesis by (auto split: if_splits)
    next
      case JNull with here 8(1) have "field_at u v" by simp
      then show ?thesis by (intro disjI2 exI[of _ 0]) simp
    next
      case (JBool b) with here 8(2) have "field_at u v" by simp
      then show ?thesis by (intro disjI2 exI[of _ 0]) simp
    next
      case (JNum n) with here 8(3) have "field_at u v" by simp
      then show ?thesis by (intro disjI2 exI[of _ 0]) simp
    next
      case (JArr ys) with here 8(4) have "field_at u v" by simp
      then show ?thesis by (intro disjI2 exI[of _ 0]) simp
    next
      case (JObj ps) with here 8(5) have "field_at u v" by simp
      then show ?thesis by (intro disjI2 exI[of _ 0]) simp
    qed
  next
    case later
    from 8(6)[OF later] show ?thesis
    proof
      assume "(''uri'', JStr v) \<in> set rest"
      then show ?thesis by simp
    next
      assume "\<exists>i<length rest. field_at (snd (rest ! i)) v"
      then obtain i where "i < length rest" "field_at (snd (rest ! i)) v" by blast
      then show ?thesis by (intro disjI2 exI[of _ "Suc i"]) simp
    qed
  qed
next
  case (10 u rest)
  from 10(3) consider (here) "v \<in> set (uri_fields u)" | (later) "v \<in> set (uri_fields_array rest)"
    by auto
  then show ?case
  proof cases
    case here
    from 10(1)[OF here] show ?thesis by (intro exI[of _ 0]) simp
  next
    case later
    from 10(2)[OF later] obtain i where "i < length rest" "field_at (rest ! i) v" by blast
    then show ?thesis by (intro exI[of _ "Suc i"]) simp
  qed
qed simp_all

subsection \<open>The scan on a store\<close>









lemma demo_paths [simp]:
  "dirname (demo_host fs) ''/m/a.gltf'' = ''/m''"
  "basename (demo_host fs) ''/m/a.gltf'' = ''a.gltf''"
  "join (demo_host fs) d f = d @ ''/'' @ f"
  "fs_exists (demo_host fs) f = (f \<in> set fs)"
  by (simp_all add: demo_host_def)

lemma texts_differ:
  "scenario_text \<noteq> two_refs_text" "scenario_text \<noteq> ''{''" "two_refs_text \<noteq> ''{''"
  by (simp_all add: scenario_text_def two_refs_text_def)

lemma demo_parse [simp]:
  "parseJsonMap (demo_host fs) scenario_text = scenario_map"
  "parseJsonMap (demo_host fs) two_refs_text = two_refs_map"
  "parseJsonMap (demo_host fs) ''{'' = failed_map"
  using texts_differ by (simp_all add: demo_host_def)

lemma scenario_state_fields:
  "panels scenario_state = [(''/m/a.gltf'', 0)]"
  "next_panel scenario_state = 1"
  "textEditor (panel_of scenario_state 0) = demo_editor scenario_text"
  "jsonMap (panel_of scenario_state 0) = Some scenario_map"
  "messageListeners (panel_of scenario_state 0) = 1"
  by (simp_all add: scenario_state_def handle_event_def openPanel_fields registered_def target_def
        init_state_def demo_editor_def scenario_host_def created_def Let_def)

lemma scenario_plan:
  "plan (demo_host fs) 0 (panel_of scenario_state 0)
     = [Establish ''/m/a.gltf'' (DocumentChanged 0), Establish ''/m/tex.png'' (ResourceChanged 0)]"
  "implied (demo_host fs) 0 (panel_of scenario_state 0)
     = [(''/m/a.gltf'', DocumentChanged 0), (''/m/tex.png'', ResourceChanged 0)]"
  by (simp_all add: plan_def implied_def scenario_state_fields demo_editor_def scenario_map_def
        scenario_tree_def ref_watches_def inlined_def shadowed_def)

text \<open>An object with a member \<^verbatim>\<open>hasOwnProperty\<close> of its own stops the scan at once.\<close>

lemma scan_throws_on_shadowed_member:
  "watch h p dir (JObj [(''hasOwnProperty'', JBool True), (''uri'', JStr ''tex.png'')]) s
     = (Some TypeError, s)"
  by (simp add: shadowed_def)

lemma openPanel_threw:
  assumes "watch_inv s" "registry_inv s" "fst (openPanel h c ed s) \<noteq> None"
  shows "snd (openPanel h c ed s)
            = snd (updatePanel h c (target s ed) (fileName ed) (getText ed) (registered h c ed s))"
    and "activePanel (snd (openPanel h c ed s)) = activePanel s"
    and "trace (snd (openPanel h c ed s))
           = trace (registered h c ed s)
             @ map WatcherClosed (watchers (panel_of (registered h c ed s) (target s ed)))"
proof -
  let ?s1 = "registered h c ed s"
  let ?s2 = "update_panel (target s ed) (refreshed h c (fileName ed) (getText ed)) ?s1"
  have w1: "watch_inv ?s1"
    using assms(1,2) by (auto simp: registered_def intro: inv_created split: option.splits)
  have w2: "watch_inv ?s2" by (rule watch_inv_frame[OF w1]) simp_all
  have pr2: "watchFiles h (target s ed) ?s2
      = (fst (watchFiles h (target s ed) ?s2), snd (watchFiles h (target s ed) ?s2))"
    by simp
  note R2 = watchFiles_result[OF w2 pr2]
  have a1: "activePanel ?s1 = activePanel s" by (simp add: registered_def split: option.splits)
  from assms(3) show eq: "snd (openPanel h c ed s)
            = snd (updatePanel h c (target s ed) (fileName ed) (getText ed) ?s1)"
    by (cases h c ed s rule: openPanel_cases) simp_all
  show "activePanel (snd (openPanel h c ed s)) = activePanel s"
    unfolding eq using R2(6) a1 by (simp add: updatePanel_eq)
  show "trace (snd (openPanel h c ed s))
           = trace ?s1 @ map WatcherClosed (watchers (panel_of ?s1 (target s ed)))"
    unfolding eq using R2(7) by (simp add: updatePanel_eq)
qed

lemma watchFiles_outcome:
  assumes "watch_inv s"
  shows "fst (watchFiles h p s) = raised h (plan h p (panel_of s p))"
    and "described (open_watches (snd (watchFiles h p s)) p) = performed h (plan h p (panel_of s p))"
proof -
  have pr: "watchFiles h p s = (fst (watchFiles h p s), snd (watchFiles h p s))" by simp
  show "fst (watchFiles h p s) = raised h (plan h p (panel_of s p))"
    by (rule watchFiles_result(2)[OF assms pr])
  show "described (open_watches (snd (watchFiles h p s)) p) = performed h (plan h p (panel_of s p))"
    by (rule watchFiles_result(1)[OF assms pr])
qed

text \<open>Opening the preview of a document from the initial state.\<close>

lemma first_open:
  "fst (openPanel (demo_host fs) demo_preview (demo_editor tx) init_state)
     = raised (demo_host fs)
         (plan (demo_host fs) 0
            (refreshed (demo_host fs) demo_preview ''/m/a.gltf'' tx (new_panel (demo_editor tx) [] [])))"
  "described (open_watches (snd (openPanel (demo_host fs) demo_preview (demo_editor tx) init_state)) 0)
     = performed (demo_host fs)
         (plan (demo_host fs) 0
            (refreshed (demo_host fs) demo_preview ''/m/a.gltf'' tx (new_panel (demo_editor tx) [] [])))"
proof -
  let ?h = "demo_host fs"
  let ?ed = "demo_editor tx"
  let ?s1 = "registered ?h demo_preview ?ed init_state"
  let ?s2 = "update_panel 0 (refreshed ?h demo_preview ''/m/a.gltf'' tx) ?s1"
  have t: "target init_state ?ed = 0" by (simp add: target_def init_state_def)
  have s1: "?s1 = created ?h demo_preview ?ed init_state"
    by (simp add: registered_def init_state_def)
  have "panel_of (created ?h demo_preview ?ed init_state) 0 = new_panel ?ed [] []"
    by (simp add: created_def Let_def init_state_def demo_host_def)
  then have p1: "panel_of ?s1 0 = new_panel ?ed [] []"
    unfolding s1 .
  have w1: "watch_inv ?s1" unfolding s1
    using inv_init by (rule inv_created) (simp add: init_state_def)
  have w2: "watch_inv ?s2" by (rule watch_inv_frame[OF w1]) simp_all
  have fn: "fileName ?ed = ''/m/a.gltf''" "getText ?ed = tx" by (simp_all add: demo_editor_def)
  have p2: "panel_of ?s2 0 = refreshed ?h demo_preview ''/m/a.gltf'' tx (new_panel ?ed [] [])"
    by (simp add: p1)
  show "fst (openPanel ?h demo_preview ?ed init_state)
     = raised ?h (plan ?h 0 (refreshed ?h demo_preview ''/m/a.gltf'' tx (new_panel ?ed [] [])))"
    using watchFiles_outcome(1)[OF w2, of ?h 0]
    unfolding openPanel_fields(6) t fn updatePanel_eq p2 by simp
  have "open_watches (snd (openPanel ?h demo_preview ?ed init_state)) 0
      = open_watches (snd (watchFiles ?h 0 ?s2)) 0"
    by (cases ?h demo_preview ?ed init_state rule: openPanel_cases)
       (simp_all add: t fn updatePanel_eq open_watches_def)
  then show "described (open_watches (snd (openPanel ?h demo_preview ?ed init_state)) 0)
     = performed ?h (plan ?h 0 (refreshed ?h demo_preview ''/m/a.gltf'' tx (new_panel ?ed [] [])))"
    using watchFiles_outcome(2)[OF w2, of ?h 0] unfolding p2 by simp
qed

lemma plan_two_refs:
  "plan (demo_host fs) 0
     (refreshed (demo_host fs) demo_preview ''/m/a.gltf'' two_refs_text
        (new_panel (demo_editor two_refs_text) [] []))
   = [Establish ''/m/a.gltf'' (DocumentChanged 0), Establish ''/m/tex.png'' (ResourceChanged 0),
      Establish ''/m/other.bin'' (ResourceChanged 0)]"
  by (simp add: plan_def demo_editor_def two_refs_map_def two_refs_tree_def inlined_def shadowed_def)

lemma plan_scenario:
  "plan (demo_host fs) 0
     (refreshed (demo_host fs) demo_preview ''/m/a.gltf'' scenario_text
        (new_panel (demo_editor scenario_text) [] []))
   = [Establish ''/m/a.gltf'' (DocumentChanged 0), Establish ''/m/tex.png'' (ResourceChanged 0)]"
  by (simp add: plan_def demo_editor_def scenario_map_def scenario_tree_def inlined_def shadowed_def)

lemma scenario_watchers:
  "fs_watchers scenario_state
     = [\<lparr>handle = 0, wpath = ''/m/a.gltf'', listener = DocumentChanged 0\<rparr>,
        \<lparr>handle = 1, wpath = ''/m/tex.png'', listener = ResourceChanged 0\<rparr>]"
proof -
  let ?h = "demo_host [''/m/a.gltf'', ''/m/tex.png'']"
  let ?ed = "demo_editor scenario_text"
  let ?s1 = "created ?h demo_preview ?ed init_state"
  let ?s2 = "update_panel 0 (refreshed ?h demo_preview ''/m/a.gltf'' scenario_text) ?s1"
  have t: "target init_state ?ed = 0" "registered ?h demo_preview ?ed init_state = ?s1"
    by (simp_all add: target_def registered_def init_state_def)
  have fn: "fileName ?ed = ''/m/a.gltf''" "getText ?ed = scenario_text" by (simp_all add: demo_editor_def)
  have "panel_of ?s1 0 = new_panel ?ed [] []"
    by (simp add: created_def Let_def init_state_def demo_host_def)
  then have p2: "panel_of ?s2 0 = refreshed ?h demo_preview ''/m/a.gltf'' scenario_text (new_panel ?ed [] [])"
    by simp
  have s1: "fs_watchers ?s1 = []" "next_watcher ?s1 = 0" by (simp_all add: init_state_def)
  have "fs_watchers scenario_state = fs_watchers (snd (watchFiles ?h 0 ?s2))"
    unfolding scenario_state_def scenario_host_def
    by (cases ?h demo_preview ?ed init_state rule: openPanel_cases)
       (simp_all add: handle_event_def t fn updatePanel_eq)
  also have "\<dots> = [\<lparr>handle = 0, wpath = ''/m/a.gltf'', listener = DocumentChanged 0\<rparr>,
        \<lparr>handle = 1, wpath = ''/m/tex.png'', listener = ResourceChanged 0\<rparr>]"
    unfolding watchFiles_push_all p2 plan_scenario
    by (simp add: push_watch_cases init_state_def)
  finally show ?thesis .
qed

subsection \<open>A store for every tree\<close>





subsection \<open>The page, the listeners, opening a document again\<close>

lemma formatHtml_payload:
  "replace_cspSource h
     (formatHtml h c version gltfContent (dirname h f @ ''/'') (basename h f)
        (defaultBabylonReflection i) (defaultThreeReflection i))
     (cspSource h)
   = payload h c version f gltfContent i"
  by (simp add: formatHtml_def payload_def Let_def link_tag_def text_tag_def script_tag_def comp_def)

lemma html_refreshed:
  "html (refreshed h c f tx i)
     = payload h c (if is_v2 (data (parseJsonMap h tx)) then 2 else 1) f tx i"
  unfolding formatHtml_payload[symmetric] by (simp add: refreshed_def)

lemma updatePanel_page:
  "jsonMap (panel_of (snd (updatePanel h c p f tx s)) p) = Some (parseJsonMap h tx)"
  "title (panel_of (snd (updatePanel h c p f tx s)) p) = ''glTF Preview ['' @ basename h f @ '']''"
  "html (panel_of (snd (updatePanel h c p f tx s)) p)
     = payload h c (if is_v2 (data (parseJsonMap h tx)) then 2 else 1) f tx (panel_of s p)"
  by (simp_all add: updatePanel_eq watchFiles_textEditor html_refreshed)

lemma deliver_unknown:
  assumes "command msg \<notin> set [''select'', ''setContext'', ''showErrorMessage'', ''showWarningMessage'', ''onReady'']"
  shows "deliver n h p msg s = (replicate n (UnknownCommand (command msg)), s)"
proof (induction n)
  case 0
  show ?case by simp
next
  case (Suc n)
  have one: "onDidReceiveMessage h p msg s = (Some (UnknownCommand (command msg)), s)"
    using assms by (simp add: onDidReceiveMessage_def)
  show ?case using one Suc.IH by simp
qed


lemma openPanel_page:
  "jsonMap (panel_of (snd (openPanel h c ed s)) (target s ed)) = Some (parseJsonMap h (getText ed))"
  "title (panel_of (snd (openPanel h c ed s)) (target s ed))
     = ''glTF Preview ['' @ basename h (fileName ed) @ '']''"
  "html (panel_of (snd (openPanel h c ed s)) (target s ed))
     = payload h c (if is_v2 (data (parseJsonMap h (getText ed))) then 2 else 1) (fileName ed) (getText ed)
         (panel_of (registered h c ed s) (target s ed))"
  by (cases h c ed s rule: openPanel_cases; simp add: updatePanel_page)+

lemma watch_inv_registered:
  assumes "watch_inv s" "registry_inv s"
  shows "watch_inv (registered h c ed s)"
  using assms by (auto simp: registered_def intro: inv_created split: option.splits)

lemma openPanel_raised:
  assumes "watch_inv s" "registry_inv s"
  shows "fst (openPanel h c ed s)
     = raised h (plan h (target s ed)
         (refreshed h c (fileName ed) (getText ed) (panel_of (registered h c ed s) (target s ed))))"
proof -
  let ?s1 = "registered h c ed s"
  let ?s2 = "update_panel (target s ed) (refreshed h c (fileName ed) (getText ed)) ?s1"
  have w1: "watch_inv ?s1" using assms by (rule watch_inv_registered)
  have w2: "watch_inv ?s2" by (rule watch_inv_frame[OF w1]) simp_all
  show ?thesis
    unfolding openPanel_fields(6) updatePanel_eq watchFiles_outcome(1)[OF w2] by simp
qed

lemma openPanel_returned:
  assumes "watch_inv s" "registry_inv s" "fst (openPanel h c ed s) = None"
  shows "activePanel (snd (openPanel h c ed s)) = Some (target s ed)"
    and "trace (snd (openPanel h c ed s))
           = trace (registered h c ed s)
             @ map WatcherClosed (watchers (panel_of (registered h c ed s) (target s ed)))
             @ Reveal (target s ed)
               # (if activePanel s = Some (target s ed) then []
                  else [ActivePanelChanged (Some (target s ed)),
                        PostMessage (target s ed) ''updateDebugMode''])"
proof -
  let ?s1 = "registered h c ed s"
  let ?t = "target s ed"
  let ?s2 = "update_panel ?t (refreshed h c (fileName ed) (getText ed)) ?s1"
  let ?s3 = "snd (updatePanel h c ?t (fileName ed) (getText ed) ?s1)"
  have w1: "watch_inv ?s1" using assms(1,2) by (rule watch_inv_registered)
  have w2: "watch_inv ?s2" by (rule watch_inv_frame[OF w1]) simp_all
  have pr2: "watchFiles h ?t ?s2 = (fst (watchFiles h ?t ?s2), snd (watchFiles h ?t ?s2))" by simp
  note R2 = watchFiles_result[OF w2 pr2]
  have a1: "activePanel ?s1 = activePanel s" by (simp add: registered_def split: option.splits)
  have a3: "activePanel ?s3 = activePanel s" using R2(6) a1 by (simp add: updatePanel_eq)
  have t3: "trace ?s3 = trace ?s1 @ map WatcherClosed (watchers (panel_of ?s1 ?t))"
    using R2(7) by (simp add: updatePanel_eq)
  from assms(3) have eq: "snd (openPanel h c ed s) = setActivePanel (Some ?t) (emit (Reveal ?t) ?s3)"
    by (cases h c ed s rule: openPanel_cases) simp_all
  show "activePanel (snd (openPanel h c ed s)) = Some ?t"
    unfolding eq by (simp add: setActivePanel_def Let_def emit_def)
  show "trace (snd (openPanel h c ed s))
           = trace ?s1 @ map WatcherClosed (watchers (panel_of ?s1 ?t))
             @ Reveal ?t # (if activePanel s = Some ?t then []
                  else [ActivePanelChanged (Some ?t), PostMessage ?t ''updateDebugMode''])"
    unfolding eq using a3 t3 by (simp add: setActivePanel_def Let_def emit_def)
qed

lemma scenario_watcher_list: "watchers (panel_of scenario_state 0) = [0, 1]"
proof -
  have w: "watch_inv scenario_state" unfolding scenario_state_def by (rule inv_run)
  then have "map handle (open_watches scenario_state 0) = watchers (panel_of scenario_state 0)"
    unfolding watch_inv_def by blast
  then show ?thesis by (simp add: open_watches_def scenario_watchers)
qed

lemma plan_refreshed_two_refs:
  "plan (demo_host fs) 0
     (refreshed (demo_host fs') demo_preview ''/m/a.gltf'' two_refs_text (panel_of scenario_state 0))
   = [Establish ''/m/a.gltf'' (DocumentChanged 0), Establish ''/m/tex.png'' (ResourceChanged 0),
      Establish ''/m/other.bin'' (ResourceChanged 0)]"
  "implied (demo_host fs) 0
     (refreshed (demo_host fs') demo_preview ''/m/a.gltf'' two_refs_text (panel_of scenario_state 0))
   = [(''/m/a.gltf'', DocumentChanged 0), (''/m/tex.png'', ResourceChanged 0),
      (''/m/other.bin'', ResourceChanged 0)]"
  by (simp_all add: plan_def implied_def scenario_state_fields demo_editor_def two_refs_map_def
        two_refs_tree_def inlined_def shadowed_def ref_watches_def)

lemma scenario_registered:
  "target scenario_state (demo_editor tx) = 0"
  "registered h c (demo_editor tx) scenario_state = scenario_state"
  by (simp_all add: target_def registered_def scenario_state_fields demo_editor_def)

lemma scenario_active: "activePanel scenario_state = Some 0"
proof -
  have ss: "scenario_state = snd (openPanel scenario_host demo_preview (demo_editor scenario_text) init_state)"
    by (simp add: scenario_state_def handle_event_def)
  have fo: "fst (openPanel scenario_host demo_preview (demo_editor scenario_text) init_state) = None"
    unfolding scenario_host_def by (simp add: first_open plan_scenario)
  have tg: "target init_state (demo_editor scenario_text) = 0"
    by (simp add: target_def init_state_def)
  show ?thesis unfolding ss openPanel_returned(1)[OF inv_init fo] tg ..
qed

lemma edited_state:
  "run demo_preview
     [(scenario_host, OpenPanel (demo_editor scenario_text)), (demo_host fs, WatchEvent 0 two_refs_text)]
     init_state
   = snd (watchFiles (demo_host fs) 0
            (update_panel 0 (refreshed (demo_host fs) demo_preview ''/m/a.gltf'' two_refs_text)
               scenario_state))"
proof -
  have "run demo_preview
     [(scenario_host, OpenPanel (demo_editor scenario_text)), (demo_host fs, WatchEvent 0 two_refs_text)]
     init_state
     = handle_event (demo_host fs) demo_preview (WatchEvent 0 two_refs_text) scenario_state"
    by (simp add: scenario_state_def)
  also have "\<dots> = snd (updatePanel (demo_host fs) demo_preview 0 ''/m/a.gltf'' two_refs_text scenario_state)"
    by (simp add: handle_event_def scenario_watchers fire_watch_def)
  finally show ?thesis by (simp add: updatePanel_eq)
qed




section \<open>The claims\<close>

text \<open>
  Claim C1, as the code has it. A \<^verbatim>\<open>select\<close> message whose pointer is absent from the
  panel's current position map makes the handler throw: \<^verbatim>\<open>pointers[jsonPointer]\<close> is
  \<^verbatim>\<open>undefined\<close> and \<^verbatim>\<open>pointer.value\<close> is a TypeError. The exception leaves before line 171,
  so no selection command is issued, nothing is navigated, and the state is what it was.
\<close>

theorem select_absent_pointer:
  assumes "command msg = ''select''" "jsonMap (panel_of s p) = Some m"
    "pointers m (jsonPointer msg) = None"
  shows "onDidReceiveMessage h p msg s = (Some TypeError, s)"
  using assms by (simp add: onDidReceiveMessage_def)

text \<open>The scenario's panel receives a \<^verbatim>\<open>select\<close> for a pointer its document never had.\<close>

theorem select_absent_pointer_witness:
  "command (select_message ''/meshes/0'') = ''select''
   \<and> jsonMap (panel_of scenario_state 0) = Some scenario_map
   \<and> pointers scenario_map (jsonPointer (select_message ''/meshes/0'')) = None
   \<and> onDidReceiveMessage scenario_host 0 (select_message ''/meshes/0'') scenario_state
       = (Some TypeError, scenario_state)"
proof -
  have a: "command (select_message ''/meshes/0'') = ''select''" by (simp add: select_message_def)
  have b: "jsonMap (panel_of scenario_state 0) = Some scenario_map" by (rule scenario_state_fields)
  have c: "pointers scenario_map (jsonPointer (select_message ''/meshes/0'')) = None"
    by (simp add: scenario_map_def select_message_def)
  from select_absent_pointer[OF a b c] a b c show ?thesis by blast
qed

text \<open>
  The handler does not fail silently. The scenario's document is opened, then its text
  becomes that of the document with three references and the document watch fires; the
  pointer \<^verbatim>\<open>/asset/version\<close>, valid before, is gone from the new position map, and a
  \<^verbatim>\<open>select\<close> for it throws.
\<close>

theorem stale_pointer_select_throws:
  "pointers scenario_map ''/asset/version'' = Some \<lparr>value_pos = 20, valueEnd_pos = 25\<rparr>
   \<and> jsonMap (panel_of (run demo_preview
          [(scenario_host, OpenPanel (demo_editor scenario_text)),
           (demo_host [''/m/a.gltf'', ''/m/tex.png'', ''/m/other.bin''], WatchEvent 0 two_refs_text)]
          init_state) 0) = Some two_refs_map
   \<and> pointers two_refs_map ''/asset/version'' = None
   \<and> fst (onDidReceiveMessage scenario_host 0 (select_message ''/asset/version'')
        (run demo_preview
          [(scenario_host, OpenPanel (demo_editor scenario_text)),
           (demo_host [''/m/a.gltf'', ''/m/tex.png'', ''/m/other.bin''], WatchEvent 0 two_refs_text)]
          init_state)) = Some TypeError"
proof -
  let ?h = "demo_host [''/m/a.gltf'', ''/m/tex.png'', ''/m/other.bin'']"
  define T where "T = run demo_preview
          [(scenario_host, OpenPanel (demo_editor scenario_text)), (?h, WatchEvent 0 two_refs_text)]
          init_state"
  have "T = handle_event ?h demo_preview (WatchEvent 0 two_refs_text) scenario_state"
    by (simp add: T_def scenario_state_def)
  also have "\<dots> = snd (updatePanel ?h demo_preview 0 ''/m/a.gltf'' two_refs_text scenario_state)"
    by (simp add: handle_event_def scenario_watchers fire_watch_def)
  finally have T: "T = snd (updatePanel ?h demo_preview 0 ''/m/a.gltf'' two_refs_text scenario_state)" .
  have j: "jsonMap (panel_of T 0) = Some two_refs_map"
    unfolding T by (simp add: updatePanel_fields)
  have n: "pointers two_refs_map ''/asset/version'' = None" by (simp add: two_refs_map_def)
  have "onDidReceiveMessage scenario_host 0 (select_message ''/asset/version'') T = (Some TypeError, T)"
    using j n by (simp add: onDidReceiveMessage_def select_message_def)
  then show ?thesis using j n unfolding T_def by (simp add: scenario_map_def)
qed

text \<open>
  Claim C2, as the code has it. Start from any state the events lead to and call
  \<^verbatim>\<open>openPanel\<close> any number of times, for any editors. Among the panels created by these
  calls at most one belongs to a given document, and none if the document had a panel
  already: that panel stays registered. The registry never holds a file name twice. A call
  for a registered document creates nothing and leaves the registry as it is; it refreshes
  the registered panel, whose parsed map, title and page become those of the editor's text.
  The call returns exactly when every step of the rebuild succeeds; then it reveals the panel
  and makes it the active one. When the rebuild throws, the call ends there: it has closed
  the panel's old watches, and it neither reveals the panel nor changes the active one.
\<close>

theorem at_most_one_panel_per_document:
  "let s0 = run c evs init_state;
       s' = run c (open_events hes) s0;
       new = filter (\<lambda>q. fileName (textEditor (panel_of s' q)) = f) [next_panel s0 ..< next_panel s']
   in length new \<le> 1
      \<and> distinct (map fst (panels s'))
      \<and> (\<forall>q. map_of (panels s0) f = Some q \<longrightarrow> new = [] \<and> map_of (panels s') f = Some q)
      \<and> (\<forall>q. map_of (panels s0) (fileName ed) = Some q \<longrightarrow>
            next_panel (snd (openPanel h c ed s0)) = next_panel s0
            \<and> panels (snd (openPanel h c ed s0)) = panels s0
            \<and> jsonMap (panel_of (snd (openPanel h c ed s0)) q) = Some (parseJsonMap h (getText ed))
            \<and> title (panel_of (snd (openPanel h c ed s0)) q)
                = ''glTF Preview ['' @ basename h (fileName ed) @ '']''
            \<and> html (panel_of (snd (openPanel h c ed s0)) q)
                = payload h c (if is_v2 (data (parseJsonMap h (getText ed))) then 2 else 1)
                    (fileName ed) (getText ed) (panel_of s0 q)
            \<and> fst (openPanel h c ed s0)
                = raised h (plan h q (refreshed h c (fileName ed) (getText ed) (panel_of s0 q)))
            \<and> (fst (openPanel h c ed s0) = None \<longrightarrow>
                  trace (snd (openPanel h c ed s0))
                    = trace s0 @ map WatcherClosed (watchers (panel_of s0 q))
                      @ Reveal q # (if activePanel s0 = Some q then []
                                    else [ActivePanelChanged (Some q), PostMessage q ''updateDebugMode''])
                  \<and> activePanel (snd (openPanel h c ed s0)) = Some q)
            \<and> (fst (openPanel h c ed s0) \<noteq> None \<longrightarrow>
                  trace (snd (openPanel h c ed s0))
                    = trace s0 @ map WatcherClosed (watchers (panel_of s0 q))
                  \<and> activePanel (snd (openPanel h c ed s0)) = activePanel s0))"
proof -
  define s0 where "s0 = run c evs init_state"
  define s' where "s' = run c (open_events hes) s0"
  define new where "new = filter (\<lambda>q. fileName (textEditor (panel_of s' q)) = f) [next_panel s0 ..< next_panel s']"
  have w0: "watch_inv s0" unfolding s0_def by (rule inv_run)
  have r0: "registry_inv s0" unfolding s0_def by (rule inv_run)
  have "registry_inv s'" unfolding s'_def s0_def
    using inv_run_from[OF inv_run, of c "open_events hes" c evs] by simp
  then have d: "distinct (map fst (panels s'))" by (simp add: registry_inv_def)
  note R = open_events_run[of s0 c hes, folded s'_def]
  have reg: "map_of (panels s') f = Some q" if "q \<in> set new" for q
    using that R unfolding new_def by auto
  have "length new \<le> 1"
  proof (cases new)
    case Nil
    then show ?thesis by simp
  next
    case (Cons a as)
    have "x = a" if "x \<in> set new" for x
      using reg[OF that] reg[of a] Cons by simp
    moreover have "distinct new" unfolding new_def by simp
    ultimately show ?thesis by (rule all_equal_length[rotated])
  qed
  moreover have "new = [] \<and> map_of (panels s') f = Some q" if q: "map_of (panels s0) f = Some q" for q
  proof
    show k: "map_of (panels s') f = Some q" using R q by blast
    have "q < next_panel s0" using r0 q by (rule map_of_registry)
    moreover have "x = q \<and> next_panel s0 \<le> x" if "x \<in> set new" for x
      using reg[OF that] k that unfolding new_def by simp
    ultimately show "new = []" by (cases new) force+
  qed
  moreover have "next_panel (snd (openPanel h c ed s0)) = next_panel s0
            \<and> panels (snd (openPanel h c ed s0)) = panels s0
            \<and> jsonMap (panel_of (snd (openPanel h c ed s0)) q) = Some (parseJsonMap h (getText ed))
            \<and> title (panel_of (snd (openPanel h c ed s0)) q)
                = ''glTF Preview ['' @ basename h (fileName ed) @ '']''
            \<and> html (panel_of (snd (openPanel h c ed s0)) q)
                = payload h c (if is_v2 (data (parseJsonMap h (getText ed))) then 2 else 1)
                    (fileName ed) (getText ed) (panel_of s0 q)
            \<and> fst (openPanel h c ed s0)
                = raised h (plan h q (refreshed h c (fileName ed) (getText ed) (panel_of s0 q)))
            \<and> (fst (openPanel h c ed s0) = None \<longrightarrow>
                  trace (snd (openPanel h c ed s0))
                    = trace s0 @ map WatcherClosed (watchers (panel_of s0 q))
                      @ Reveal q # (if activePanel s0 = Some q then []
                                    else [ActivePanelChanged (Some q), PostMessage q ''updateDebugMode''])
                  \<and> activePanel (snd (openPanel h c ed s0)) = Some q)
            \<and> (fst (openPanel h c ed s0) \<noteq> None \<longrightarrow>
                  trace (snd (openPanel h c ed s0))
                    = trace s0 @ map WatcherClosed (watchers (panel_of s0 q))
                  \<and> activePanel (snd (openPanel h c ed s0)) = activePanel s0)"
    if q: "map_of (panels s0) (fileName ed) = Some q" for q
  proof -
    have t: "target s0 ed = q" "registered h c ed s0 = s0"
      using q by (simp_all add: target_def registered_def)
    note P = openPanel_page[of h c ed s0, unfolded t]
    note F = openPanel_raised[OF w0 r0, of h c ed, unfolded t]
    note A = openPanel_returned[OF w0 r0, of h c ed, unfolded t]
    note B = openPanel_threw(2,3)[OF w0 r0, of h c ed, unfolded t]
    have n: "next_panel (snd (openPanel h c ed s0)) = next_panel s0"
      "panels (snd (openPanel h c ed s0)) = panels s0"
      using t by (simp_all add: openPanel_fields)
    show ?thesis using n P F A B by blast
  qed
  ultimately show ?thesis
    unfolding Let_def s0_def[symmetric] s'_def[symmetric] new_def[symmetric] using d by blast
qed

text \<open>
  The scenario's document is registered; opening it again with the text of the document with
  three references, all files present, reuses panel 0 and reveals it.
\<close>

theorem at_most_one_panel_per_document_witness:
  "map_of (panels (run demo_preview [(scenario_host, OpenPanel (demo_editor scenario_text))] init_state))
      ''/m/a.gltf'' = Some 0
   \<and> fst (openPanel (demo_host [''/m/a.gltf'', ''/m/tex.png'', ''/m/other.bin'']) demo_preview
        (demo_editor two_refs_text)
        (run demo_preview [(scenario_host, OpenPanel (demo_editor scenario_text))] init_state)) = None
   \<and> jsonMap (panel_of (snd (openPanel (demo_host [''/m/a.gltf'', ''/m/tex.png'', ''/m/other.bin''])
        demo_preview (demo_editor two_refs_text)
        (run demo_preview [(scenario_host, OpenPanel (demo_editor scenario_text))] init_state))) 0)
       = Some two_refs_map
   \<and> trace (snd (openPanel (demo_host [''/m/a.gltf'', ''/m/tex.png'', ''/m/other.bin'']) demo_preview
        (demo_editor two_refs_text)
        (run demo_preview [(scenario_host, OpenPanel (demo_editor scenario_text))] init_state)))
       = trace (run demo_preview [(scenario_host, OpenPanel (demo_editor scenario_text))] init_state)
         @ [WatcherClosed 0, WatcherClosed 1, Reveal 0]
   \<and> next_panel (snd (openPanel (demo_host [''/m/a.gltf'', ''/m/tex.png'', ''/m/other.bin'']) demo_preview
        (demo_editor two_refs_text)
        (run demo_preview [(scenario_host, OpenPanel (demo_editor scenario_text))] init_state))) = 1"
proof -
  let ?h = "demo_host [''/m/a.gltf'', ''/m/tex.png'', ''/m/other.bin'']"
  have rs: "run demo_preview [(scenario_host, OpenPanel (demo_editor scenario_text))] init_state
      = scenario_state"
    by (simp only: scenario_state_def)
  have r: "map_of (panels (run demo_preview [(scenario_host, OpenPanel (demo_editor scenario_text))] init_state))
      (fileName (demo_editor two_refs_text)) = Some 0"
    unfolding rs by (simp add: scenario_state_fields demo_editor_def)
  have r': "map_of (panels scenario_state) ''/m/a.gltf'' = Some 0"
    by (simp add: scenario_state_fields)
  have a: "activePanel scenario_state = Some 0" by (rule scenario_active)
  note T = at_most_one_panel_per_document[of demo_preview
         "[(scenario_host, OpenPanel (demo_editor scenario_text))]"
         "[]" "''/m/a.gltf''" "demo_editor two_refs_text" ?h, unfolded Let_def rs]
  from T r[unfolded rs]
  have f: "fst (openPanel ?h demo_preview (demo_editor two_refs_text) scenario_state)
      = raised ?h (plan ?h 0 (refreshed ?h demo_preview (fileName (demo_editor two_refs_text))
                                 (getText (demo_editor two_refs_text)) (panel_of scenario_state 0)))"
    by blast
  have f0: "fst (openPanel ?h demo_preview (demo_editor two_refs_text) scenario_state) = None"
    unfolding f by (simp add: demo_editor_def plan_refreshed_two_refs)
  from T r[unfolded rs] f0
  have "jsonMap (panel_of (snd (openPanel ?h demo_preview (demo_editor two_refs_text) scenario_state)) 0)
          = Some (parseJsonMap ?h (getText (demo_editor two_refs_text)))
        \<and> trace (snd (openPanel ?h demo_preview (demo_editor two_refs_text) scenario_state))
          = trace scenario_state @ map WatcherClosed (watchers (panel_of scenario_state 0))
            @ Reveal 0 # (if activePanel scenario_state = Some 0 then []
                          else [ActivePanelChanged (Some 0), PostMessage 0 ''updateDebugMode''])
        \<and> next_panel (snd (openPanel ?h demo_preview (demo_editor two_refs_text) scenario_state))
          = next_panel scenario_state"
    by blast
  then show ?thesis
    unfolding rs using r' f0 a
    by (simp add: scenario_watcher_list scenario_state_fields demo_editor_def)
qed

text \<open>
  Opening again does not always reveal. The scenario's document is open; its text now refers
  to \<^verbatim>\<open>other.bin\<close>, which is missing, and the preview is opened again. The call throws, and
  all it asks of the host is to close the two old watches.
\<close>

theorem reopened_panel_not_revealed:
  "map_of (panels scenario_state) ''/m/a.gltf'' = Some 0
   \<and> fileName (demo_editor two_refs_text) = ''/m/a.gltf''
   \<and> fst (openPanel scenario_host demo_preview (demo_editor two_refs_text) scenario_state)
       = Some (ENOENT ''/m/other.bin'')
   \<and> trace (snd (openPanel scenario_host demo_preview (demo_editor two_refs_text) scenario_state))
       = trace scenario_state @ [WatcherClosed 0, WatcherClosed 1]
   \<and> Reveal 0 \<notin> set [WatcherClosed 0, WatcherClosed 1]"
proof -
  let ?ed = "demo_editor two_refs_text"
  have w: "watch_inv scenario_state" unfolding scenario_state_def by (rule inv_run)
  have r: "registry_inv scenario_state" unfolding scenario_state_def by (rule inv_run)
  have f: "fst (openPanel scenario_host demo_preview ?ed scenario_state) = Some (ENOENT ''/m/other.bin'')"
    unfolding openPanel_raised[OF w r] scenario_registered scenario_host_def
    by (simp add: demo_editor_def plan_refreshed_two_refs)
  then have ne: "fst (openPanel scenario_host demo_preview ?ed scenario_state) \<noteq> None" by simp
  have t: "trace (snd (openPanel scenario_host demo_preview ?ed scenario_state))
       = trace scenario_state @ [WatcherClosed 0, WatcherClosed 1]"
    unfolding openPanel_threw(3)[OF w r ne] scenario_registered
    by (simp add: scenario_watcher_list)
  show ?thesis using f t by (simp add: scenario_state_fields demo_editor_def)
qed

text \<open>
  Claim C3, as the code has it. For a panel of any state the events lead to, after any number \<open>n + 1\<close> of
  rebuilds in a row the watches held open for the panel are those of one rebuild alone: what
  the steps of the plan establish. They are a prefix of the implied watches (the document,
  then one per scanned reference) and all of them when the rebuild returns; they are exactly
  the handles in the panel's list, without repetition; the watches of other panels are
  untouched; a rebuild first closes every watch the panel held. Tearing down twice is
  tearing down once, and leaves the panel without a watch.
\<close>

theorem rebuild_replaces_the_watch_set:
  assumes "p < next_panel (run c evs init_state)"
  shows "let s = run c evs init_state; s' = rebuilds (Suc n) h p s in
     described (open_watches s' p) = performed h (plan h p (panel_of s p))
     \<and> prefix (described (open_watches s' p)) (implied h p (panel_of s p))
     \<and> (fst (watchFiles h p s) = None \<longrightarrow> described (open_watches s' p) = implied h p (panel_of s p))
     \<and> described (open_watches s' p) = described (open_watches (rebuilds 1 h p s) p)
     \<and> map handle (open_watches s' p) = watchers (panel_of s' p)
     \<and> distinct (watchers (panel_of s' p))
     \<and> (\<forall>q. q \<noteq> p \<longrightarrow> open_watches s' q = open_watches s q)
     \<and> trace (snd (watchFiles h p s)) = trace s @ map WatcherClosed (watchers (panel_of s p))
     \<and> unwatchFiles p (unwatchFiles p s') = unwatchFiles p s'
     \<and> open_watches (unwatchFiles p s') p = []
     \<and> watchers (panel_of (unwatchFiles p s') p) = []"
proof -
  define s where "s = run c evs init_state"
  define s' where "s' = rebuilds (Suc n) h p s"
  have w: "watch_inv s" unfolding s_def by (rule inv_run)
  have p: "p < next_panel s" using assms unfolding s_def .
  note R = rebuilds_result[OF w p]
  have w': "watch_inv s'" unfolding s'_def by (rule R(1))
  have a: "described (open_watches s' p) = performed h (plan h p (panel_of s p))"
    unfolding s'_def by (rule R(5)) simp
  have b: "described (open_watches (rebuilds 1 h p s) p) = performed h (plan h p (panel_of s p))"
    by (rule R(5)) simp
  have c: "prefix (described (open_watches s' p)) (implied h p (panel_of s p))"
    unfolding a by (rule plan_implied)
  have d: "fst (watchFiles h p s) = None \<longrightarrow> described (open_watches s' p) = implied h p (panel_of s p)"
    unfolding a watchFiles_outcome(1)[OF w] using plan_implied(2) by blast
  have pr: "watchFiles h p s = (fst (watchFiles h p s), snd (watchFiles h p s))" by simp
  have t: "trace (snd (watchFiles h p s)) = trace s @ map WatcherClosed (watchers (panel_of s p))"
    by (rule watchFiles_result(7)[OF w pr])
  have o: "\<forall>q. q \<noteq> p \<longrightarrow> open_watches s' q = open_watches s q"
    unfolding s'_def using R(4) by blast
  have e: "described (open_watches s' p) = described (open_watches (rebuilds 1 h p s) p)"
    using a b by simp
  have u: "unwatchFiles p (unwatchFiles p s') = unwatchFiles p s'" by (rule unwatchFiles_idem)
  have v: "watchers (panel_of (unwatchFiles p s') p) = []" by simp
  show ?thesis
    unfolding Let_def s_def[symmetric] s'_def[symmetric]
    by (intro conjI a c d e watch_inv_distinct[OF w'] o t u watch_inv_unwatchFiles(2)[OF w'] v)
qed

text \<open>Three rebuilds of the scenario's panel leave its two watches, once each.\<close>

theorem rebuild_replaces_the_watch_set_witness:
  "0 < next_panel (run demo_preview [(scenario_host, OpenPanel (demo_editor scenario_text))] init_state)
   \<and> fst (watchFiles scenario_host 0
        (run demo_preview [(scenario_host, OpenPanel (demo_editor scenario_text))] init_state)) = None
   \<and> described (open_watches (rebuilds (Suc 2) scenario_host 0
        (run demo_preview [(scenario_host, OpenPanel (demo_editor scenario_text))] init_state)) 0)
       = [(''/m/a.gltf'', DocumentChanged 0), (''/m/tex.png'', ResourceChanged 0)]"
proof -
  have rs: "run demo_preview [(scenario_host, OpenPanel (demo_editor scenario_text))] init_state
      = scenario_state"
    by (simp only: scenario_state_def)
  have n: "0 < next_panel (run demo_preview [(scenario_host, OpenPanel (demo_editor scenario_text))] init_state)"
    unfolding rs by (simp add: scenario_state_fields)
  have n0: "0 < next_panel scenario_state" by (simp add: scenario_state_fields)
  have w: "watch_inv scenario_state" unfolding scenario_state_def by (rule inv_run)
  have f0: "fst (watchFiles scenario_host 0 scenario_state) = None"
    unfolding watchFiles_outcome(1)[OF w] scenario_host_def scenario_plan by simp
  have i0: "implied scenario_host 0 (panel_of scenario_state 0)
      = [(''/m/a.gltf'', DocumentChanged 0), (''/m/tex.png'', ResourceChanged 0)]"
    unfolding scenario_host_def by (rule scenario_plan(2))
  note T = rebuild_replaces_the_watch_set[OF n, of 2 scenario_host, unfolded Let_def rs]
  from T f0
  have "described (open_watches (rebuilds (Suc 2) scenario_host 0 scenario_state) 0)
       = implied scenario_host 0 (panel_of scenario_state 0)"
    by blast
  then have d: "described (open_watches (rebuilds (Suc 2) scenario_host 0 scenario_state) 0)
       = [(''/m/a.gltf'', DocumentChanged 0), (''/m/tex.png'', ResourceChanged 0)]"
    unfolding i0 .
  show ?thesis unfolding rs by (intro conjI n0 f0 d)
qed

text \<open>
  The watches left are not always the implied ones. The scenario's panel is open; the
  document's text becomes that of the document with three references while \<^verbatim>\<open>tex.png\<close> is
  gone, and the document watch fires. In that state three watches are implied, and two
  rebuilds leave the document's watch alone.
\<close>

theorem rebuilds_leave_less_than_implied:
  "0 < next_panel (run demo_preview
          [(scenario_host, OpenPanel (demo_editor scenario_text)),
           (demo_host [''/m/a.gltf'', ''/m/other.bin''], WatchEvent 0 two_refs_text)] init_state)
   \<and> implied (demo_host [''/m/a.gltf'', ''/m/other.bin'']) 0
        (panel_of (run demo_preview
          [(scenario_host, OpenPanel (demo_editor scenario_text)),
           (demo_host [''/m/a.gltf'', ''/m/other.bin''], WatchEvent 0 two_refs_text)] init_state) 0)
       = [(''/m/a.gltf'', DocumentChanged 0), (''/m/tex.png'', ResourceChanged 0),
          (''/m/other.bin'', ResourceChanged 0)]
   \<and> described (open_watches (rebuilds 2 (demo_host [''/m/a.gltf'', ''/m/other.bin'']) 0
        (run demo_preview
          [(scenario_host, OpenPanel (demo_editor scenario_text)),
           (demo_host [''/m/a.gltf'', ''/m/other.bin''], WatchEvent 0 two_refs_text)] init_state)) 0)
       = [(''/m/a.gltf'', DocumentChanged 0)]"
proof -
  let ?h = "demo_host [''/m/a.gltf'', ''/m/other.bin'']"
  define T where "T = run demo_preview
          [(scenario_host, OpenPanel (demo_editor scenario_text)), (?h, WatchEvent 0 two_refs_text)]
          init_state"
  let ?s1 = "update_panel 0 (refreshed ?h demo_preview ''/m/a.gltf'' two_refs_text) scenario_state"
  have T: "T = snd (watchFiles ?h 0 ?s1)" unfolding T_def by (rule edited_state)
  have w: "watch_inv T" unfolding T_def by (rule inv_run)
  have n: "0 < next_panel T" unfolding T by (simp add: watchFiles_textEditor scenario_state_fields)
  have pl: "plan ?h 0 (panel_of T 0)
      = [Establish ''/m/a.gltf'' (DocumentChanged 0), Establish ''/m/tex.png'' (ResourceChanged 0),
         Establish ''/m/other.bin'' (ResourceChanged 0)]"
    unfolding T by (simp add: plan_refreshed_two_refs)
  have im: "implied ?h 0 (panel_of T 0)
       = [(''/m/a.gltf'', DocumentChanged 0), (''/m/tex.png'', ResourceChanged 0),
          (''/m/other.bin'', ResourceChanged 0)]"
    unfolding T by (simp add: plan_refreshed_two_refs)
  have "described (open_watches (rebuilds 2 ?h 0 T) 0) = performed ?h (plan ?h 0 (panel_of T 0))"
    by (rule rebuilds_result(5)[OF w n]) simp
  then have d: "described (open_watches (rebuilds 2 ?h 0 T) 0) = [(''/m/a.gltf'', DocumentChanged 0)]"
    unfolding pl by simp
  show ?thesis unfolding T_def[symmetric] by (intro conjI n im d)
qed

text \<open>
  Claim C4, as the code has it. Let the panel hold the tree \<open>t\<close>. The strings under a
  \<^verbatim>\<open>uri\<close> key, at any depth, are \<open>uri_fields t\<close>, in the order of the scan. Take the list
  of the document's own path and then, in that order, each such string that does not start
  with \<^verbatim>\<open>data:\<close>, joined to the document's directory: an inlined value has no entry. The
  watches a rebuild opens are those of the steps before its first failing one; they are an
  initial part of this list, and the whole list when the rebuild returns.
\<close>

theorem references_selected_for_watching:
  assumes "jsonMap (panel_of (run c evs init_state) p) = Some m" "data m = Some t"
  shows "let s = run c evs init_state;
             doc = fileName (textEditor (panel_of s p));
             dir = dirname h doc;
             s' = snd (watchFiles h p s);
             refs = map (\<lambda>v. (join h dir v, ResourceChanged p))
                      (filter (\<lambda>v. take 5 v \<noteq> ''data:'') (uri_fields t))
         in described (open_watches s' p) = performed h (plan h p (panel_of s p))
            \<and> prefix (described (open_watches s' p)) ((doc, DocumentChanged p) # refs)
            \<and> (fst (watchFiles h p s) = None \<longrightarrow>
                  described (open_watches s' p) = (doc, DocumentChanged p) # refs)
            \<and> set (uri_fields t)
                = {v. \<exists>path kvs. descend t path = Some (JObj kvs) \<and> (''uri'', JStr v) \<in> set kvs}
            \<and> (\<forall>path kvs v. fst (watchFiles h p s) = None \<and> descend t path = Some (JObj kvs)
                   \<and> (''uri'', JStr v) \<in> set kvs \<and> take 5 v \<noteq> ''data:''
                   \<longrightarrow> (join h dir v, ResourceChanged p) \<in> set (described (open_watches s' p)))"
proof -
  define s where "s = run c evs init_state"
  define doc where "doc = fileName (textEditor (panel_of s p))"
  define dir where "dir = dirname h doc"
  define s' where "s' = snd (watchFiles h p s)"
  define refs where "refs = map (\<lambda>v. (join h dir v, ResourceChanged p))
                      (filter (\<lambda>v. take 5 v \<noteq> ''data:'') (uri_fields t))"
  have w: "watch_inv s" unfolding s_def by (rule inv_run)
  have pr: "watchFiles h p s = (fst (watchFiles h p s), s')" by (simp add: s'_def)
  note R = watchFiles_result[OF w pr]
  have wn: "implied h p (panel_of s p) = (doc, DocumentChanged p) # refs"
    using assms unfolding s_def[symmetric]
    by (simp add: implied_def doc_def dir_def refs_def ref_watches_def inlined_def Let_def)
  have A: "prefix (described (open_watches s' p)) ((doc, DocumentChanged p) # refs)"
    unfolding R(1) wn[symmetric] by (rule plan_implied)
  have B: "described (open_watches s' p) = (doc, DocumentChanged p) # refs"
    if "fst (watchFiles h p s) = None"
  proof -
    have "raised h (plan h p (panel_of s p)) = None" using that R(2) by simp
    then show ?thesis unfolding R(1) wn[symmetric] by (rule plan_implied)
  qed
  have C: "set (uri_fields t)
                = {v. \<exists>path kvs. descend t path = Some (JObj kvs) \<and> (''uri'', JStr v) \<in> set kvs}"
    using uri_fields_sound(1)[of _ t] uri_fields_complete[of t]
    unfolding field_at_def by blast
  have D: "(join h dir v, ResourceChanged p) \<in> set (described (open_watches s' p))"
    if "fst (watchFiles h p s) = None" "descend t path = Some (JObj kvs)"
      "(''uri'', JStr v) \<in> set kvs" "take 5 v \<noteq> ''data:''" for path kvs v
  proof -
    have "v \<in> set (uri_fields t)" using that(2,3) by (rule uri_fields_complete)
    then have "(join h dir v, ResourceChanged p) \<in> set refs"
      using that(4) unfolding refs_def by auto
    then show ?thesis unfolding B[OF that(1)] by simp
  qed
  show ?thesis
    unfolding Let_def s_def[symmetric] doc_def[symmetric] dir_def[symmetric] s'_def[symmetric]
      refs_def[symmetric]
    using R(1) A B C D by blast
qed

text \<open>The scenario: the watch set is the document and \<^verbatim>\<open>tex.png\<close> in its directory.\<close>

theorem references_selected_for_watching_witness:
  "jsonMap (panel_of (run demo_preview [(scenario_host, OpenPanel (demo_editor scenario_text))] init_state) 0)
      = Some scenario_map
   \<and> data scenario_map = Some scenario_tree
   \<and> fst (watchFiles scenario_host 0
        (run demo_preview [(scenario_host, OpenPanel (demo_editor scenario_text))] init_state)) = None
   \<and> described (open_watches (snd (watchFiles scenario_host 0
        (run demo_preview [(scenario_host, OpenPanel (demo_editor scenario_text))] init_state))) 0)
       = [(''/m/a.gltf'', DocumentChanged 0), (''/m/tex.png'', ResourceChanged 0)]"
proof -
  have j: "jsonMap (panel_of (run demo_preview [(scenario_host, OpenPanel (demo_editor scenario_text))] init_state) 0)
      = Some scenario_map"
    using scenario_state_fields(4) by (simp add: scenario_state_def)
  have d: "data scenario_map = Some scenario_tree" by (simp add: scenario_map_def)
  have w: "watch_inv scenario_state" unfolding scenario_state_def by (rule inv_run)
  have f: "fst (watchFiles scenario_host 0 scenario_state) = None"
    unfolding watchFiles_outcome(1)[OF w] scenario_host_def scenario_plan by simp
  from references_selected_for_watching[OF j d, of scenario_host] f
  have "described (open_watches (snd (watchFiles scenario_host 0 scenario_state)) 0)
      = (fileName (textEditor (panel_of scenario_state 0)), DocumentChanged 0)
        # map (\<lambda>v. (join scenario_host (dirname scenario_host (fileName (textEditor (panel_of scenario_state 0)))) v,
                      ResourceChanged 0))
            (filter (\<lambda>v. take 5 v \<noteq> ''data:'') (uri_fields scenario_tree))"
    unfolding Let_def scenario_state_def[symmetric] by blast
  then have "described (open_watches (snd (watchFiles scenario_host 0 scenario_state)) 0)
       = [(''/m/a.gltf'', DocumentChanged 0), (''/m/tex.png'', ResourceChanged 0)]"
    by (simp add: scenario_state_fields demo_editor_def scenario_host_def scenario_tree_def)
  with j d f show ?thesis unfolding scenario_state_def by simp
qed

text \<open>
  A relative path is not always added. The scenario's panel is open; the document's text
  becomes that of the document with three references while \<^verbatim>\<open>tex.png\<close> is gone, and the
  document watch fires. The rebuild stops at \<^verbatim>\<open>tex.png\<close>: the field \<^verbatim>\<open>"uri": "other.bin"\<close>
  of the tree the panel now holds names a file that exists, and it is not watched.
\<close>

theorem later_reference_not_watched:
  "data two_refs_map = Some two_refs_tree
   \<and> descend two_refs_tree [1, 0] = Some (JObj [(''uri'', JStr ''other.bin'')])
   \<and> take 5 ''other.bin'' \<noteq> ''data:''
   \<and> fs_exists (demo_host [''/m/a.gltf'', ''/m/other.bin'']) ''/m/other.bin''
   \<and> jsonMap (panel_of (run demo_preview
          [(scenario_host, OpenPanel (demo_editor scenario_text)),
           (demo_host [''/m/a.gltf'', ''/m/other.bin''], WatchEvent 0 two_refs_text)]
          init_state) 0) = Some two_refs_map
   \<and> described (open_watches (run demo_preview
          [(scenario_host, OpenPanel (demo_editor scenario_text)),
           (demo_host [''/m/a.gltf'', ''/m/other.bin''], WatchEvent 0 two_refs_text)]
          init_state) 0) = [(''/m/a.gltf'', DocumentChanged 0)]
   \<and> (''/m/other.bin'', ResourceChanged 0) \<notin> set (described (open_watches (run demo_preview
          [(scenario_host, OpenPanel (demo_editor scenario_text)),
           (demo_host [''/m/a.gltf'', ''/m/other.bin''], WatchEvent 0 two_refs_text)]
          init_state) 0))"
proof -
  let ?h = "demo_host [''/m/a.gltf'', ''/m/other.bin'']"
  define T where "T = run demo_preview
          [(scenario_host, OpenPanel (demo_editor scenario_text)), (?h, WatchEvent 0 two_refs_text)]
          init_state"
  let ?s1 = "update_panel 0 (refreshed ?h demo_preview ''/m/a.gltf'' two_refs_text) scenario_state"
  have "T = handle_event ?h demo_preview (WatchEvent 0 two_refs_text) scenario_state"
    by (simp add: T_def scenario_state_def)
  also have "\<dots> = snd (updatePanel ?h demo_preview 0 ''/m/a.gltf'' two_refs_text scenario_state)"
    by (simp add: handle_event_def scenario_watchers fire_watch_def)
  finally have T: "T = snd (watchFiles ?h 0 ?s1)"
    by (simp add: updatePanel_eq)
  have w: "watch_inv scenario_state" unfolding scenario_state_def by (rule inv_run)
  have w1: "watch_inv ?s1" by (rule watch_inv_frame[OF w]) simp_all
  have pl: "plan ?h 0 (panel_of ?s1 0)
      = [Establish ''/m/a.gltf'' (DocumentChanged 0), Establish ''/m/tex.png'' (ResourceChanged 0),
         Establish ''/m/other.bin'' (ResourceChanged 0)]"
    by (simp add: plan_def scenario_state_fields demo_editor_def two_refs_map_def two_refs_tree_def
          inlined_def shadowed_def)
  have d: "described (open_watches T 0) = [(''/m/a.gltf'', DocumentChanged 0)]"
    unfolding T watchFiles_outcome(2)[OF w1] pl by simp
  have j: "jsonMap (panel_of T 0) = Some two_refs_map"
    unfolding T by (simp add: watchFiles_textEditor)
  have a: "data two_refs_map = Some two_refs_tree" by (simp add: two_refs_map_def)
  have b: "descend two_refs_tree [1, 0] = Some (JObj [(''uri'', JStr ''other.bin'')])"
    by (simp add: two_refs_tree_def)
  have c: "fs_exists ?h ''/m/other.bin''" by (simp add: demo_host_def)
  show ?thesis using a b c d j unfolding T_def by simp
qed

text \<open>
  Claim C5. The major version is 2 exactly when the tree has an \<^verbatim>\<open>asset\<close> object whose
  \<^verbatim>\<open>version\<close> begins with \<^verbatim>\<open>2\<close>, and 1 in every other case, also without a tree; computing it
  never throws. The scenario's document, with version \<^verbatim>\<open>"2.0"\<close>, has major version 2.
\<close>

theorem major_version_detection:
  "gltfMajorVersion gltf = Inr (if is_v2 gltf then 2 else 1)
   \<and> asset_version (Some scenario_tree) = Some (JStr ''2.0'')
   \<and> gltfMajorVersion (Some scenario_tree) = Inr 2
   \<and> gltfMajorVersion None = Inr 1"
  by (simp add: gltfMajorVersion_is_v2 is_v2_def asset_version_def scenario_tree_def)

text \<open>
  Claim C6, as the code has it. A message whose command is none of the five known ones makes
  every listener of the panel throw \<^verbatim>\<open>Unknown command\<close>: the message raises as many
  failures as the panel has listeners. Each failure ends the run of one listener and nothing
  else; the whole state stays as it was: the readiness flag, the watch set, the registry, and
  no call to the host.
\<close>

theorem unknown_command_contained:
  assumes "command msg \<notin> set [''select'', ''setContext'', ''showErrorMessage'', ''showWarningMessage'', ''onReady'']"
  shows "onDidReceiveMessage h p msg s = (Some (UnknownCommand (command msg)), s)
     \<and> receiveMessage h p msg s
         = (replicate (messageListeners (panel_of s p)) (UnknownCommand (command msg)), s)
     \<and> handle_event h c (DidReceiveMessage p msg) s = s"
proof -
  have a: "onDidReceiveMessage h p msg s = (Some (UnknownCommand (command msg)), s)"
    using assms by (simp add: onDidReceiveMessage_def)
  have b: "receiveMessage h p msg s
         = (replicate (messageListeners (panel_of s p)) (UnknownCommand (command msg)), s)"
    unfolding receiveMessage_def by (rule deliver_unknown[OF assms])
  have c: "handle_event h c (DidReceiveMessage p msg) s = s"
    by (simp add: handle_event_def b)
  show ?thesis by (intro conjI a b c)
qed

text \<open>The command \<^verbatim>\<open>zoom\<close> is unknown; the scenario's panel has one listener.\<close>

theorem unknown_command_contained_witness:
  "command (command_message ''zoom'')
     \<notin> set [''select'', ''setContext'', ''showErrorMessage'', ''showWarningMessage'', ''onReady'']
   \<and> receiveMessage scenario_host 0 (command_message ''zoom'') scenario_state
       = ([UnknownCommand ''zoom''], scenario_state)
   \<and> handle_event scenario_host demo_preview (DidReceiveMessage 0 (command_message ''zoom'')) scenario_state
       = scenario_state"
proof -
  have u: "command (command_message ''zoom'')
     \<notin> set [''select'', ''setContext'', ''showErrorMessage'', ''showWarningMessage'', ''onReady'']"
    by (simp add: command_message_def)
  have c: "command (command_message ''zoom'') = ''zoom''" by (simp add: command_message_def)
  from unknown_command_contained[OF u, of scenario_host 0 scenario_state demo_preview] u
  show ?thesis unfolding c by (simp add: scenario_state_fields)
qed

text \<open>
  One message does not always raise exactly one failure. After the scenario's document has
  been opened twice its panel has two listeners, and an unknown message raises two failures.
\<close>

theorem unknown_command_fails_once_per_listener:
  "messageListeners (panel_of (run demo_preview
        [(scenario_host, OpenPanel (demo_editor scenario_text)),
         (scenario_host, OpenPanel (demo_editor scenario_text))] init_state) 0) = 2
   \<and> fst (receiveMessage scenario_host 0 (command_message ''zoom'')
        (run demo_preview
          [(scenario_host, OpenPanel (demo_editor scenario_text)),
           (scenario_host, OpenPanel (demo_editor scenario_text))] init_state))
       = [UnknownCommand ''zoom'', UnknownCommand ''zoom'']"
proof -
  define T where "T = run demo_preview
        [(scenario_host, OpenPanel (demo_editor scenario_text)),
         (scenario_host, OpenPanel (demo_editor scenario_text))] init_state"
  have T: "T = snd (openPanel scenario_host demo_preview (demo_editor scenario_text) scenario_state)"
    by (simp add: T_def scenario_state_def handle_event_def)
  have m: "messageListeners (panel_of T 0) = 2"
    unfolding T by (simp add: openPanel_fields scenario_registered scenario_state_fields)
  have u: "command (command_message ''zoom'')
     \<notin> set [''select'', ''setContext'', ''showErrorMessage'', ''showWarningMessage'', ''onReady'']"
    by (simp add: command_message_def)
  have c: "command (command_message ''zoom'') = ''zoom''" by (simp add: command_message_def)
  have "receiveMessage scenario_host 0 (command_message ''zoom'') T
      = (replicate 2 (UnknownCommand ''zoom''), T)"
    unfolding receiveMessage_def m deliver_unknown[OF u] c ..
  then have r: "fst (receiveMessage scenario_host 0 (command_message ''zoom'') T)
      = [UnknownCommand ''zoom'', UnknownCommand ''zoom'']"
    by (simp add: numeral_2_eq_2)
  show ?thesis unfolding T_def[symmetric] by (intro conjI m r)
qed

text \<open>
  Claim C7, as the code has it. \<^verbatim>\<open>fs.watch\<close> is not guarded: the first step of the plan
  that fails ends the rebuild with its error. The watches before it are open, it and all
  after it are not; so whenever one of the implied watches cannot be established, the rebuild
  throws. The error leaves \<^verbatim>\<open>updatePanel\<close> and \<^verbatim>\<open>openPanel\<close> too, and \<^verbatim>\<open>openPanel\<close> then
  neither reveals the panel nor makes it the active one. What \<^verbatim>\<open>updatePanel\<close> set before
  the rebuild stays: the parsed map, the title and the page.
\<close>

theorem failed_watch_aborts_the_refresh:
  "let s = run c evs init_state in
     fst (watchFiles h p s) = raised h (plan h p (panel_of s p))
     \<and> described (open_watches (snd (watchFiles h p s)) p) = performed h (plan h p (panel_of s p))
     \<and> (list_ex (\<lambda>(f, cb). \<not> fs_exists h f) (implied h p (panel_of s p))
          \<longrightarrow> fst (watchFiles h p s) \<noteq> None)
     \<and> fst (updatePanel h c p g tx s) = fst (watchFiles h p (update_panel p (refreshed h c g tx) s))
     \<and> jsonMap (panel_of (snd (updatePanel h c p g tx s)) p) = Some (parseJsonMap h tx)
     \<and> title (panel_of (snd (updatePanel h c p g tx s)) p) = ''glTF Preview ['' @ basename h g @ '']''
     \<and> html (panel_of (snd (updatePanel h c p g tx s)) p)
         = payload h c (if is_v2 (data (parseJsonMap h tx)) then 2 else 1) g tx (panel_of s p)
     \<and> fst (openPanel h c ed s)
         = fst (updatePanel h c (target s ed) (fileName ed) (getText ed) (registered h c ed s))
     \<and> (fst (openPanel h c ed s) \<noteq> None \<longrightarrow>
          snd (openPanel h c ed s)
            = snd (updatePanel h c (target s ed) (fileName ed) (getText ed) (registered h c ed s))
          \<and> activePanel (snd (openPanel h c ed s)) = activePanel s
          \<and> trace (snd (openPanel h c ed s))
              = trace (registered h c ed s)
                @ map WatcherClosed (watchers (panel_of (registered h c ed s) (target s ed))))"
proof -
  define s where "s = run c evs init_state"
  have w: "watch_inv s" unfolding s_def by (rule inv_run)
  have r: "registry_inv s" unfolding s_def by (rule inv_run)
  have E: "fst (openPanel h c ed s) \<noteq> None \<longrightarrow>
          snd (openPanel h c ed s)
            = snd (updatePanel h c (target s ed) (fileName ed) (getText ed) (registered h c ed s))
          \<and> activePanel (snd (openPanel h c ed s)) = activePanel s
          \<and> trace (snd (openPanel h c ed s))
              = trace (registered h c ed s)
                @ map WatcherClosed (watchers (panel_of (registered h c ed s) (target s ed)))"
    using openPanel_threw[OF w r] by blast
  have C: "fst (updatePanel h c p g tx s) = fst (watchFiles h p (update_panel p (refreshed h c g tx) s))"
    by (simp add: updatePanel_eq)
  have D: "fst (openPanel h c ed s)
         = fst (updatePanel h c (target s ed) (fileName ed) (getText ed) (registered h c ed s))"
    by (rule openPanel_fields)
  have F: "list_ex (\<lambda>(f, cb). \<not> fs_exists h f) (implied h p (panel_of s p))
          \<longrightarrow> fst (watchFiles h p s) \<noteq> None"
  proof
    assume ex: "list_ex (\<lambda>(f, cb). \<not> fs_exists h f) (implied h p (panel_of s p))"
    show "fst (watchFiles h p s) \<noteq> None"
    proof
      assume "fst (watchFiles h p s) = None"
      then have n: "raised h (plan h p (panel_of s p)) = None"
        by (simp add: watchFiles_outcome(1)[OF w])
      from plan_implied(2)[OF n] performed_exist[of h "plan h p (panel_of s p)"]
      have "list_all (\<lambda>(f, cb). fs_exists h f) (implied h p (panel_of s p))" by simp
      with ex show False by (auto simp: list_all_iff list_ex_iff)
    qed
  qed
  show ?thesis
    unfolding Let_def s_def[symmetric]
    by (intro conjI watchFiles_outcome[OF w] C D E F updatePanel_page)
qed

text \<open>Opening the scenario's document while \<^verbatim>\<open>tex.png\<close> is missing.\<close>

theorem failed_watch_aborts_the_refresh_witness:
  "fst (openPanel (demo_host [''/m/a.gltf'']) demo_preview (demo_editor scenario_text)
          (run demo_preview [] init_state)) \<noteq> None
   \<and> activePanel (snd (openPanel (demo_host [''/m/a.gltf'']) demo_preview (demo_editor scenario_text)
          (run demo_preview [] init_state))) = None"
proof -
  have "fst (openPanel (demo_host [''/m/a.gltf'']) demo_preview (demo_editor scenario_text)
          (run demo_preview [] init_state)) = Some (ENOENT ''/m/tex.png'')"
    by (simp add: first_open plan_scenario)
  then have f: "fst (openPanel (demo_host [''/m/a.gltf'']) demo_preview (demo_editor scenario_text)
          (run demo_preview [] init_state)) \<noteq> None" by simp
  from failed_watch_aborts_the_refresh[of demo_preview "[]" "demo_host [''/m/a.gltf'']" 0
         "''/m/a.gltf''" scenario_text "demo_editor scenario_text"] f
  have "activePanel (snd (openPanel (demo_host [''/m/a.gltf'']) demo_preview (demo_editor scenario_text)
          (run demo_preview [] init_state))) = activePanel (run demo_preview [] init_state)"
    unfolding Let_def by blast
  with f show ?thesis by (simp add: init_state_def)
qed

text \<open>
  One failure does abort the refresh. The document refers to \<^verbatim>\<open>tex.png\<close>, which is
  missing, and then to \<^verbatim>\<open>other.bin\<close>, which exists: opening it throws, \<^verbatim>\<open>other.bin\<close>
  is not watched, and the panel is not revealed.
\<close>

theorem missing_reference_aborts_the_refresh:
  "fst (openPanel (demo_host [''/m/a.gltf'', ''/m/other.bin'']) demo_preview
          (demo_editor two_refs_text) init_state) = Some (ENOENT ''/m/tex.png'')
   \<and> described (open_watches (snd (openPanel (demo_host [''/m/a.gltf'', ''/m/other.bin'']) demo_preview
          (demo_editor two_refs_text) init_state)) 0) = [(''/m/a.gltf'', DocumentChanged 0)]
   \<and> fs_exists (demo_host [''/m/a.gltf'', ''/m/other.bin'']) ''/m/other.bin''
   \<and> Reveal 0 \<notin> set (trace (snd (openPanel (demo_host [''/m/a.gltf'', ''/m/other.bin'']) demo_preview
          (demo_editor two_refs_text) init_state)))"
proof -
  let ?h = "demo_host [''/m/a.gltf'', ''/m/other.bin'']"
  let ?ed = "demo_editor two_refs_text"
  have f: "fst (openPanel ?h demo_preview ?ed init_state) = Some (ENOENT ''/m/tex.png'')"
    by (simp add: first_open plan_two_refs)
  have d: "described (open_watches (snd (openPanel ?h demo_preview ?ed init_state)) 0)
      = [(''/m/a.gltf'', DocumentChanged 0)]"
    by (simp add: first_open plan_two_refs)
  have ne: "fst (openPanel ?h demo_preview ?ed init_state) \<noteq> None" using f by simp
  have "trace (snd (openPanel ?h demo_preview ?ed init_state))
      = trace (registered ?h demo_preview ?ed init_state)
        @ map WatcherClosed (watchers (panel_of (registered ?h demo_preview ?ed init_state)
                                         (target init_state ?ed)))"
    using inv_init ne by (rule openPanel_threw)
  also have "\<dots> = [CreateWebviewPanel 0 [''/ext'', ''/m'']]"
    by (simp add: registered_def target_def created_def Let_def init_state_def demo_editor_def
          demo_preview_def)
  finally have t: "Reveal 0 \<notin> set (trace (snd (openPanel ?h demo_preview ?ed init_state)))"
    by simp
  show ?thesis using f d t by simp
qed






text \<open>
  Claim C10. Every call of \<^verbatim>\<open>updatePanel\<close> adds one message listener and removes none,
  whatever it returns; so does every \<^verbatim>\<open>openPanel\<close> and every firing of a document watch,
  which call it. After a list of updates of one panel the listeners are as many more as the
  list is long, and one \<^verbatim>\<open>onReady\<close> message fires the readiness notification once per
  listener.
\<close>

theorem every_update_adds_a_listener:
  "messageListeners (panel_of (snd (updatePanel h c p f tx s)) p) = Suc (messageListeners (panel_of s p))
   \<and> messageListeners (panel_of (snd (openPanel h c ed s)) (target s ed))
       = Suc (messageListeners (panel_of (registered h c ed s) (target s ed)))
   \<and> messageListeners (panel_of
         (fire_watch h c \<lparr>handle = w, wpath = f, listener = DocumentChanged p\<rparr> tx s) p)
       = Suc (messageListeners (panel_of s p))
   \<and> messageListeners (panel_of (updates c p us s) p) = messageListeners (panel_of s p) + length us
   \<and> receiveMessage h' p (command_message ''onReady'') (updates c p us s)
       = ([], (if messageListeners (panel_of s p) + length us = 0 then updates c p us s
               else update_panel p (\<lambda>i. i\<lparr>ready := True\<rparr>) (updates c p us s))
              \<lparr>trace := trace (updates c p us s)
                  @ replicate (messageListeners (panel_of s p) + length us) (PanelReadyChanged p)\<rparr>)"
  by (simp add: updatePanel_listeners updates_listeners receiveMessage_def deliver_onReady
        openPanel_fields fire_watch_def)

end
